theory Spec2Isabelle
  imports Main
begin

section \<open>Data model\<close>

text \<open>
  The action \<^verbatim>\<open>run\<close> of \<^verbatim>\<open>src/lib/main.ts\<close> reads a label list and pull-request
  snapshots from the GitHub API and sends add-label and remove-label requests.
  The interfaces \<^verbatim>\<open>IGithubLabelNode\<close> and \<^verbatim>\<open>IGithubPRNode\<close> are imported from
  \<^verbatim>\<open>./interfaces\<close>; the fields below are the ones \<^verbatim>\<open>run\<close> reads
  (\<^verbatim>\<open>label.node.id\<close>, \<^verbatim>\<open>label.node.name\<close>, \<^verbatim>\<open>pullrequest.node.id\<close>,
  \<^verbatim>\<open>.number\<close>, \<^verbatim>\<open>.mergeable\<close>, \<^verbatim>\<open>.labels.edges\<close>).
\<close>

text \<open>
  Modelled from the spec: the type of \<^verbatim>\<open>node.mergeable\<close> is declared in
  \<^verbatim>\<open>./interfaces\<close>; the spec's data model gives the mergeability fact exactly three
  values. \<^verbatim>\<open>run\<close> compares it with the strings \<^verbatim>\<open>'CONFLICTING'\<close> and
  \<^verbatim>\<open>'MERGEABLE'\<close>.
\<close>

datatype mergeable = CONFLICTING | MERGEABLE | UNKNOWN

record label_node =
  label_id :: string
  label_name :: string

record pr_node =
  pr_id :: string
  pr_number :: nat
  pr_mergeable :: mergeable
  pr_labels :: "label_node list"

text \<open>
  Values that can be thrown: the rejection of an API request, and the \<^verbatim>\<open>TypeError\<close>
  that JavaScript raises when a property of \<^verbatim>\<open>undefined\<close> is read.
\<close>

datatype err = TransportError string | TypeError

text \<open>The calls of \<^verbatim>\<open>core.setFailed\<close>, one constructor for each message of \<^verbatim>\<open>run\<close>.\<close>

datatype failure =
    GetLabelsFailed err
  | LabelNotFound string
  | GetPullRequestsFailed err
  | CannotDetermine
  | AddLabelsFailed err
  | RemoveLabelsFailed err

text \<open>The two mutation requests, with the fields \<^verbatim>\<open>labelIds\<close> and \<^verbatim>\<open>labelableId\<close>.\<close>

datatype mutation =
    AddLabels string string
  | RemoveLabels string string

fun labelIds :: "mutation \<Rightarrow> string" where
  "labelIds (AddLabels l p) = l"
| "labelIds (RemoveLabels l p) = l"

fun labelableId :: "mutation \<Rightarrow> string" where
  "labelableId (AddLabels l p) = p"
| "labelableId (RemoveLabels l p) = p"

text \<open>
  The world outside \<^verbatim>\<open>run\<close>: the input \<^verbatim>\<open>CONFLICT_LABEL_NAME\<close>, the outcome of the
  one \<^verbatim>\<open>getLabels\<close> call (the \<^verbatim>\<open>repository.labels.edges\<close> array, or the error thrown),
  the outcome of the \<open>k\<close>-th \<^verbatim>\<open>getPullRequests\<close> call (\<open>k\<close> counted from 1, as
  \<^verbatim>\<open>tries\<close> is), and the outcome of each mutation request (\<open>None\<close>: it resolves).
\<close>

record env =
  conflictLabelName :: string
  getLabels :: "err + label_node list"
  getPullRequests :: "nat \<Rightarrow> err + pr_node list"
  mutationResult :: "mutation \<Rightarrow> err option"

section \<open>Label resolution (lines 24 to 47)\<close>

definition findConflictLabel :: "string \<Rightarrow> label_node list \<Rightarrow> label_node option" where
  "findConflictLabel name edges = find (\<lambda>label. label_name label = name) edges"

text \<open>
  Returns the \<^verbatim>\<open>setFailed\<close> calls and the value of \<^verbatim>\<open>conflictLabel\<close>, which stays
  \<^verbatim>\<open>undefined\<close> (\<open>None\<close>) when the request fails or no name matches. Nothing returns
  from \<^verbatim>\<open>run\<close> here.
\<close>

definition resolveLabel :: "string \<Rightarrow> err + label_node list \<Rightarrow> failure list \<times> label_node option" where
  "resolveLabel name labelData =
     (case labelData of
        Inl error \<Rightarrow> ([GetLabelsFailed error], None)
      | Inr edges \<Rightarrow>
          (case findConflictLabel name edges of
             None \<Rightarrow> ([LabelNotFound name], None)
           | Some label \<Rightarrow> ([], Some label)))"

section \<open>The polling loop (lines 49 to 82)\<close>

text \<open>
  Modelled from the spec: \<^verbatim>\<open>getPullrequestsWithoutMergeStatus\<close> is imported from
  \<^verbatim>\<open>./util\<close>; the spec describes it as the subset of pull requests whose fact is
  Unknown.
\<close>

definition getPullrequestsWithoutMergeStatus :: "pr_node list \<Rightarrow> pr_node list" where
  "getPullrequestsWithoutMergeStatus pullrequests =
     filter (\<lambda>pullrequest. pr_mergeable pullrequest = UNKNOWN) pullrequests"

record poll_state =
  pullRequests :: "pr_node list option"
  pullrequestsWithoutMergeStatus :: "pr_node list"
  tries :: nat
  waits :: nat
  pollFailures :: "failure list"

definition pollInit :: poll_state where
  "pollInit = \<lparr>pullRequests = None, pullrequestsWithoutMergeStatus = [], tries = 0,
     waits = 0, pollFailures = []\<rparr>"

definition pollCondition :: "nat \<Rightarrow> poll_state \<Rightarrow> bool" where
  "pollCondition maxRetries s \<longleftrightarrow>
     (pullrequestsWithoutMergeStatus s \<noteq> [] \<and> tries s < maxRetries) \<or> tries s = 0"

text \<open>
  The first half of the loop body: \<^verbatim>\<open>tries++\<close>, the wait when the previous fetch left
  unknown pull requests, and the fetch, whose error is caught and reported while
  \<^verbatim>\<open>pullRequests\<close> keeps its previous value.
\<close>

definition pollFetch :: "(nat \<Rightarrow> err + pr_node list) \<Rightarrow> poll_state \<Rightarrow> poll_state" where
  "pollFetch fetch s =
     (let s1 = s\<lparr>tries := Suc (tries s)\<rparr>;
          s2 = (if pullrequestsWithoutMergeStatus s1 \<noteq> [] then s1\<lparr>waits := Suc (waits s1)\<rparr> else s1)
      in case fetch (tries s2) of
           Inr prs \<Rightarrow> s2\<lparr>pullRequests := Some prs\<rparr>
         | Inl error \<Rightarrow> s2\<lparr>pollFailures := pollFailures s2 @ [GetPullRequestsFailed error]\<rparr>)"

text \<open>
  The second half: the call of \<^verbatim>\<open>getPullrequestsWithoutMergeStatus(pullRequests)\<close>.
  When \<^verbatim>\<open>pullRequests\<close> is still \<^verbatim>\<open>undefined\<close> (the first fetch failed) the helper
  reads a property of \<^verbatim>\<open>undefined\<close> and the \<^verbatim>\<open>TypeError\<close> leaves \<^verbatim>\<open>run\<close>; the
  state at the throw is kept beside the error. The helper is declared on an array; were
  it to answer \<^verbatim>\<open>undefined\<close> with an empty list, the loop would end there and
  \<^verbatim>\<open>pullRequests.filter\<close> on line 85 would throw the same error with the same
  failures reported.
\<close>

definition pollBody :: "(nat \<Rightarrow> err + pr_node list) \<Rightarrow> poll_state \<Rightarrow> (err \<times> poll_state) + poll_state" where
  "pollBody fetch s =
     (let s3 = pollFetch fetch s
      in case pullRequests s3 of
           None \<Rightarrow> Inl (TypeError, s3)
         | Some prs \<Rightarrow> Inr (s3\<lparr>pullrequestsWithoutMergeStatus := getPullrequestsWithoutMergeStatus prs\<rparr>))"

function poll :: "nat \<Rightarrow> (nat \<Rightarrow> err + pr_node list) \<Rightarrow> poll_state \<Rightarrow> (err \<times> poll_state) + poll_state" where
  "poll maxRetries fetch s =
     (if pollCondition maxRetries s
      then (case pollBody fetch s of
              Inl thrown \<Rightarrow> Inl thrown
            | Inr s' \<Rightarrow> poll maxRetries fetch s')
      else Inr s)"
  by pat_completeness auto
termination
proof (relation "measure (\<lambda>(maxRetries, fetch, s).
         if tries s = 0 then Suc maxRetries else maxRetries - tries s)")
  show "wf (measure (\<lambda>(maxRetries, fetch, s).
         if tries s = 0 then Suc maxRetries else maxRetries - tries s))"
    by simp
next
  fix maxRetries :: nat and fetch :: "nat \<Rightarrow> err + pr_node list" and s s' :: poll_state
  assume c: "pollCondition maxRetries s" and b: "pollBody fetch s = Inr s'"
  from b have t: "tries s' = Suc (tries s)"
    by (auto simp: pollBody_def pollFetch_def Let_def split: option.splits sum.splits)
  from c t show "((maxRetries, fetch, s'), (maxRetries, fetch, s)) \<in> measure (\<lambda>(maxRetries, fetch, s).
         if tries s = 0 then Suc maxRetries else maxRetries - tries s)"
    by (auto simp: pollCondition_def)
qed

text \<open>The equation of the loop is unfolded by hand, one iteration at a time.\<close>

declare poll.simps [simp del]

section \<open>The two reconciliation passes (lines 84 to 160)\<close>

definition pullrequestsWithConflicts :: "pr_node list \<Rightarrow> pr_node list" where
  "pullrequestsWithConflicts prs =
     filter (\<lambda>pullrequest. pr_mergeable pullrequest = CONFLICTING) prs"

definition pullrequestsWithConflictResolution :: "pr_node list \<Rightarrow> pr_node list" where
  "pullrequestsWithConflictResolution prs =
     filter (\<lambda>pullrequest. pr_mergeable pullrequest = MERGEABLE) prs"

text \<open>
  \<^verbatim>\<open>pullrequest.node.labels.edges.find(label => label.node.id === conflictLabel.node.id)\<close>.
  The callback of \<^verbatim>\<open>find\<close> runs only when the array has an element; with
  \<^verbatim>\<open>conflictLabel\<close> undefined its first call throws a \<^verbatim>\<open>TypeError\<close>.
\<close>

definition isAlreadyLabeled :: "label_node option \<Rightarrow> pr_node \<Rightarrow> err + label_node option" where
  "isAlreadyLabeled conflictLabel pullrequest =
     (case pr_labels pullrequest of
        [] \<Rightarrow> Inr None
      | _ # _ \<Rightarrow>
          (case conflictLabel of
             None \<Rightarrow> Inl TypeError
           | Some cl \<Rightarrow> Inr (find (\<lambda>label. label_id label = label_id cl) (pr_labels pullrequest))))"

text \<open>
  Each pass hands an \<^verbatim>\<open>async\<close> callback to \<^verbatim>\<open>forEach\<close>, which calls it for every
  element and drops the promise it returns. A callback runs up to its first
  \<^verbatim>\<open>await\<close> inside the \<^verbatim>\<open>forEach\<close>, so by then it has
  \<^item> skipped the pull request (\<open>Skipped\<close>), or
  \<^item> sent its mutation request and is waiting for the answer (\<open>Dispatched\<close>), or
  \<^item> caught an error in its \<^verbatim>\<open>try\<close> block and called \<^verbatim>\<open>setFailed\<close> (\<open>Caught\<close>):
    the argument \<^verbatim>\<open>conflictLabel.node.id\<close> of the request is evaluated inside the
    \<^verbatim>\<open>try\<close>, or
  \<^item> thrown outside the \<^verbatim>\<open>try\<close> block, which rejects the dropped promise
    (\<open>Rejected\<close>).
\<close>

datatype callback_result =
    Skipped
  | Dispatched mutation
  | Caught failure
  | Rejected err

definition labelCallback :: "label_node option \<Rightarrow> pr_node \<Rightarrow> callback_result" where
  "labelCallback conflictLabel pullrequest =
     (case isAlreadyLabeled conflictLabel pullrequest of
        Inl error \<Rightarrow> Rejected error
      | Inr (Some _) \<Rightarrow> Skipped
      | Inr None \<Rightarrow>
          (case conflictLabel of
             None \<Rightarrow> Caught (AddLabelsFailed TypeError)
           | Some cl \<Rightarrow> Dispatched (AddLabels (label_id cl) (pr_id pullrequest))))"

definition unlabelCallback :: "label_node option \<Rightarrow> pr_node \<Rightarrow> callback_result" where
  "unlabelCallback conflictLabel pullrequest =
     (case isAlreadyLabeled conflictLabel pullrequest of
        Inl error \<Rightarrow> Rejected error
      | Inr None \<Rightarrow> Skipped
      | Inr (Some _) \<Rightarrow>
          (case conflictLabel of
             None \<Rightarrow> Caught (RemoveLabelsFailed TypeError)
           | Some cl \<Rightarrow> Dispatched (RemoveLabels (label_id cl) (pr_id pullrequest))))"

text \<open>The label pass, then the unlabel pass, over one snapshot.\<close>

definition reconcile :: "label_node option \<Rightarrow> pr_node list \<Rightarrow> callback_result list" where
  "reconcile conflictLabel prs =
     map (labelCallback conflictLabel) (pullrequestsWithConflicts prs) @
     map (unlabelCallback conflictLabel) (pullrequestsWithConflictResolution prs)"

fun requestOf :: "callback_result \<Rightarrow> mutation list" where
  "requestOf (Dispatched m) = [m]"
| "requestOf _ = []"

fun caughtOf :: "callback_result \<Rightarrow> failure list" where
  "caughtOf (Caught f) = [f]"
| "caughtOf _ = []"

fun rejectionOf :: "callback_result \<Rightarrow> err list" where
  "rejectionOf (Rejected e) = [e]"
| "rejectionOf _ = []"

definition requests :: "callback_result list \<Rightarrow> mutation list" where
  "requests rs = concat (map requestOf rs)"

definition caught :: "callback_result list \<Rightarrow> failure list" where
  "caught rs = concat (map caughtOf rs)"

definition rejections :: "callback_result list \<Rightarrow> err list" where
  "rejections rs = concat (map rejectionOf rs)"

section \<open>The run\<close>

text \<open>
  What has happened when the promise of \<^verbatim>\<open>run\<close> settles: the \<^verbatim>\<open>setFailed\<close> calls so
  far, the number of fetches and waits, the last value of \<^verbatim>\<open>pullRequests\<close>, the
  mutation requests sent (none of them answered yet, since no callback has gone past
  its \<^verbatim>\<open>await\<close>), the rejections of dropped callback promises, and the error
  \<^verbatim>\<open>run\<close> itself threw, if any.
\<close>

record run_result =
  failures :: "failure list"
  fetches :: nat
  waited :: nat
  snapshot :: "pr_node list option"
  inFlight :: "mutation list"
  unhandled :: "err list"
  thrown :: "err option"

definition runWith :: "nat \<Rightarrow> env \<Rightarrow> run_result" where
  "runWith maxRetries e =
     (let (labelFailures, conflictLabel) = resolveLabel (conflictLabelName e) (getLabels e)
      in case poll maxRetries (getPullRequests e) pollInit of
           Inl (error, s) \<Rightarrow>
             \<lparr>failures = labelFailures @ pollFailures s, fetches = tries s, waited = waits s,
              snapshot = pullRequests s, inFlight = [], unhandled = [], thrown = Some error\<rparr>
         | Inr s \<Rightarrow>
             (let staleness = (if pullrequestsWithoutMergeStatus s \<noteq> [] then [CannotDetermine] else [])
              in case pullRequests s of
                   None \<Rightarrow>
                     \<lparr>failures = labelFailures @ pollFailures s @ staleness, fetches = tries s,
                      waited = waits s, snapshot = None, inFlight = [], unhandled = [],
                      thrown = Some TypeError\<rparr>
                 | Some prs \<Rightarrow>
                     (let rs = reconcile conflictLabel prs
                      in \<lparr>failures = labelFailures @ pollFailures s @ staleness @ caught rs,
                          fetches = tries s, waited = waits s, snapshot = Some prs,
                          inFlight = requests rs, unhandled = rejections rs, thrown = None\<rparr>)))"

text \<open>\<^verbatim>\<open>const maxRetries = 60\<close>.\<close>

definition run :: "env \<Rightarrow> run_result" where
  "run e = runWith 60 e"

section \<open>After the run: the requests settle\<close>

text \<open>
  Each waiting callback resumes when its request settles, after \<^verbatim>\<open>run\<close> has
  returned; a rejected request is caught and reported by \<^verbatim>\<open>setFailed\<close>.
\<close>

definition settleOne :: "(mutation \<Rightarrow> err option) \<Rightarrow> mutation \<Rightarrow> failure list" where
  "settleOne result m =
     (case result m of
        None \<Rightarrow> []
      | Some error \<Rightarrow>
          (case m of
             AddLabels _ _ \<Rightarrow> [AddLabelsFailed error]
           | RemoveLabels _ _ \<Rightarrow> [RemoveLabelsFailed error]))"

definition settledFailures :: "env \<Rightarrow> run_result \<Rightarrow> failure list" where
  "settledFailures e r = failures r @ concat (map (settleOne (mutationResult e)) (inFlight r))"

text \<open>The run is failed once \<^verbatim>\<open>setFailed\<close> has been called.\<close>

definition failedAtReturn :: "run_result \<Rightarrow> bool" where
  "failedAtReturn r \<longleftrightarrow> failures r \<noteq> []"

definition failedFinally :: "env \<Rightarrow> run_result \<Rightarrow> bool" where
  "failedFinally e r \<longleftrightarrow> settledFailures e r \<noteq> []"

text \<open>
  A pull request carries a label with this identifier: the test of the already-labeled
  check, as a predicate.
\<close>

definition hasLabelId :: "string \<Rightarrow> pr_node \<Rightarrow> bool" where
  "hasLabelId lid p \<longleftrightarrow> find (\<lambda>label. label_id label = lid) (pr_labels p) \<noteq> None"

text \<open>
  Modelled from the spec: the upstream side of \<^verbatim>\<open>addLabelsToLabelable\<close> and
  \<^verbatim>\<open>removeLabelsFromLabelable\<close> (imported from \<^verbatim>\<open>./queries\<close>) is the spec's label
  application relation: a request that succeeds attaches the repository's label with
  that identifier to the pull request with that identifier, or detaches it. A pull
  request node after the request is what the next fetch would return for it.
\<close>

definition applyMutation :: "label_node list \<Rightarrow> mutation \<Rightarrow> pr_node \<Rightarrow> pr_node" where
  "applyMutation repoLabels m p =
     (if pr_id p \<noteq> labelableId m then p
      else case m of
             AddLabels lid _ \<Rightarrow>
               (case find (\<lambda>label. label_id label = lid) repoLabels of
                  None \<Rightarrow> p
                | Some label \<Rightarrow> if hasLabelId lid p then p else p\<lparr>pr_labels := pr_labels p @ [label]\<rparr>)
           | RemoveLabels lid _ \<Rightarrow>
               p\<lparr>pr_labels := filter (\<lambda>label. label_id label \<noteq> lid) (pr_labels p)\<rparr>)"

definition succeeded :: "(mutation \<Rightarrow> err option) \<Rightarrow> mutation list \<Rightarrow> mutation list" where
  "succeeded result ms = filter (\<lambda>m. result m = None) ms"

definition upstreamAfter :: "label_node list \<Rightarrow> mutation list \<Rightarrow> pr_node \<Rightarrow> pr_node" where
  "upstreamAfter repoLabels ms p = fold (applyMutation repoLabels) ms p"

text \<open>The mutation requests of a run that name one pull request.\<close>

definition touching :: "mutation list \<Rightarrow> pr_node \<Rightarrow> mutation list" where
  "touching ms p = filter (\<lambda>m. labelableId m = pr_id p) ms"

section \<open>Describing the polling loop\<close>

text \<open>
  The \<open>k\<close>-th fetch reports no unknown pull request: it succeeds and none of the pull
  requests it returns has the fact \<open>UNKNOWN\<close>. A fetch that fails reports nothing.
\<close>

definition reportsNoUnknown :: "(nat \<Rightarrow> err + pr_node list) \<Rightarrow> nat \<Rightarrow> bool" where
  "reportsNoUnknown fetch k \<longleftrightarrow>
     (case fetch k of Inl _ \<Rightarrow> False | Inr prs \<Rightarrow> getPullrequestsWithoutMergeStatus prs = [])"

text \<open>
  What holds of the loop variables after every iteration that does not throw:
  \<^verbatim>\<open>pullRequests\<close> is defined, \<^verbatim>\<open>pullrequestsWithoutMergeStatus\<close> is computed from it,
  and it is empty exactly when the fetch of this iteration reported no unknown pull request
  (after a failed fetch the previous snapshot is still there, and it had unknown pull
  requests, or the loop would have ended).
\<close>

definition pollInv :: "(nat \<Rightarrow> err + pr_node list) \<Rightarrow> poll_state \<Rightarrow> bool" where
  "pollInv fetch s \<longleftrightarrow>
     0 < tries s \<and>
     (\<exists>prs. pullRequests s = Some prs \<and>
        pullrequestsWithoutMergeStatus s = getPullrequestsWithoutMergeStatus prs) \<and>
     ((pullrequestsWithoutMergeStatus s = []) = reportsNoUnknown fetch (tries s))"

section \<open>Example inputs\<close>

text \<open>The labels and pull requests of the spec's scenarios.\<close>

definition exConflictLabel :: label_node where
  "exConflictLabel = \<lparr>label_id = ''L1'', label_name = ''has conflicts''\<rparr>"

definition exOldLabel :: label_node where
  "exOldLabel = \<lparr>label_id = ''L2'', label_name = ''has-conflicts-old''\<rparr>"

definition exPR1 :: pr_node where
  "exPR1 = \<lparr>pr_id = ''PR1'', pr_number = 1, pr_mergeable = CONFLICTING, pr_labels = []\<rparr>"

definition exPR2 :: pr_node where
  "exPR2 = \<lparr>pr_id = ''PR2'', pr_number = 2, pr_mergeable = MERGEABLE, pr_labels = [exConflictLabel]\<rparr>"

definition exPR3 :: pr_node where
  "exPR3 = \<lparr>pr_id = ''PR3'', pr_number = 3, pr_mergeable = CONFLICTING, pr_labels = [exConflictLabel]\<rparr>"

definition exPR4 :: pr_node where
  "exPR4 = \<lparr>pr_id = ''PR4'', pr_number = 4, pr_mergeable = UNKNOWN, pr_labels = [exConflictLabel]\<rparr>"

definition exEnv :: env where
  "exEnv = \<lparr>conflictLabelName = ''has conflicts'', getLabels = Inr [exConflictLabel, exOldLabel],
     getPullRequests = (\<lambda>k. Inr [exPR1, exPR2, exPR3]), mutationResult = (\<lambda>m. None)\<rparr>"

definition exEnvNoLabel :: env where
  "exEnvNoLabel = exEnv\<lparr>conflictLabelName := ''conflict''\<rparr>"

definition exEnvNoLabelUnknown :: env where
  "exEnvNoLabelUnknown = exEnvNoLabel\<lparr>getPullRequests := (\<lambda>k. Inr [exPR1, exPR4])\<rparr>"

definition exEnvAddFails :: env where
  "exEnvAddFails = exEnv\<lparr>getPullRequests := (\<lambda>k. Inr [exPR1]),
     mutationResult := (\<lambda>m. Some (TransportError ''502''))\<rparr>"

definition exEnvNoLabelLabelled :: env where
  "exEnvNoLabelLabelled = exEnvNoLabel\<lparr>getPullRequests := (\<lambda>k. Inr [exPR3])\<rparr>"

definition exPR5 :: pr_node where
  "exPR5 = \<lparr>pr_id = ''PR5'', pr_number = 5, pr_mergeable = UNKNOWN, pr_labels = []\<rparr>"

definition exPR6 :: pr_node where
  "exPR6 = \<lparr>pr_id = ''PR6'', pr_number = 6, pr_mergeable = CONFLICTING, pr_labels = [exOldLabel]\<rparr>"

definition exEnvMixed :: env where
  "exEnvMixed = exEnv\<lparr>getPullRequests := (\<lambda>k. Inr [exPR1, exPR2, exPR3, exPR4, exPR5])\<rparr>"

definition exEnvOneFails :: env where
  "exEnvOneFails = exEnv\<lparr>getPullRequests := (\<lambda>k. Inr [exPR1, exPR6]),
     mutationResult := (\<lambda>m. if m = AddLabels ''L1'' ''PR1'' then Some (TransportError ''502'') else None)\<rparr>"

definition exEnvNeverResolves :: env where
  "exEnvNeverResolves = exEnv\<lparr>getPullRequests := (\<lambda>k. Inr [exPR5])\<rparr>"

definition exEnvResolvesAt4 :: env where
  "exEnvResolvesAt4 = exEnv\<lparr>getPullRequests := (\<lambda>k. if k < 4 then Inr [exPR5] else Inr [exPR1])\<rparr>"

definition exEnvFetchFailsOnce :: env where
  "exEnvFetchFailsOnce = exEnv\<lparr>getPullRequests :=
     (\<lambda>k. if k = 1 then Inr [exPR5] else if k = 2 then Inl (TransportError ''timeout'') else Inr [exPR1])\<rparr>"

definition exEnvLabelFetchFails :: env where
  "exEnvLabelFetchFails = exEnv\<lparr>getLabels := Inl (TransportError ''timeout'')\<rparr>"

section \<open>Properties\<close>

subsection \<open>Without a conflict label no request is sent\<close>

lemma requests_Nil_iff: "requests rs = [] \<longleftrightarrow> (\<forall>r \<in> set rs. requestOf r = [])"
  by (simp add: requests_def)

lemma labelCallback_None: "requestOf (labelCallback None p) = []"
  by (simp add: labelCallback_def isAlreadyLabeled_def split: list.splits)

lemma unlabelCallback_None: "requestOf (unlabelCallback None p) = []"
  by (simp add: unlabelCallback_def isAlreadyLabeled_def split: list.splits)

lemma requests_reconcile_None: "requests (reconcile None prs) = []"
  by (auto simp: requests_Nil_iff reconcile_def labelCallback_None unlabelCallback_None)

lemma inFlight_runWith_None:
  "snd (resolveLabel (conflictLabelName e) (getLabels e)) = None \<Longrightarrow> inFlight (runWith maxRetries e) = []"
  by (auto simp: runWith_def Let_def requests_reconcile_None split: prod.splits sum.splits option.splits)

lemma findConflictLabel_None: "findConflictLabel name edges = None \<longleftrightarrow> (\<forall>label \<in> set edges. label_name label \<noteq> name)"
  by (auto simp: findConflictLabel_def find_None_iff)

lemma failures_runWith_prefix:
  "\<exists>rest. failures (runWith maxRetries e) = fst (resolveLabel (conflictLabelName e) (getLabels e)) @ rest"
  by (auto simp: runWith_def Let_def split: prod.splits sum.splits option.splits)

subsection \<open>The run when the loop returns\<close>

lemma pollBody_Inl: "pollBody fetch s = Inl (error, s') \<Longrightarrow> error = TypeError \<and> pullRequests s' = None"
  by (auto simp: pollBody_def Let_def split: option.splits)

lemma poll_Inl: "poll maxRetries fetch s = Inl (error, s') \<Longrightarrow> error = TypeError \<and> pullRequests s' = None"
proof (induction maxRetries fetch s rule: poll.induct)
  case (1 maxRetries fetch s)
  show ?case
  proof (cases "pollCondition maxRetries s")
    case False
    with "1.prems" show ?thesis by (simp add: poll.simps)
  next
    case True
    show ?thesis
    proof (cases "pollBody fetch s")
      case (Inl t)
      with True "1.prems" have "t = (error, s')" by (simp add: poll.simps)
      with Inl show ?thesis by (simp add: pollBody_Inl)
    next
      case (Inr s2)
      with True "1.prems" have "poll maxRetries fetch s2 = Inl (error, s')" by (simp add: poll.simps)
      with "1.IH"[OF True Inr] show ?thesis by simp
    qed
  qed
qed

lemma runWith_snapshot:
  assumes "snapshot (runWith maxRetries e) = Some prs"
  shows "thrown (runWith maxRetries e) = None
       \<and> inFlight (runWith maxRetries e) = requests (reconcile (snd (resolveLabel (conflictLabelName e) (getLabels e))) prs)
       \<and> unhandled (runWith maxRetries e) = rejections (reconcile (snd (resolveLabel (conflictLabelName e) (getLabels e))) prs)"
proof (cases "poll maxRetries (getPullRequests e) pollInit")
  case (Inl t)
  obtain error s where t: "t = (error, s)" by (cases t)
  with Inl have "pullRequests s = None" by (simp add: poll_Inl)
  with Inl t assms show ?thesis
    by (simp add: runWith_def Let_def split: prod.splits)
next
  case (Inr s)
  with assms show ?thesis
    by (auto simp: runWith_def Let_def split: prod.splits option.splits)
qed

subsection \<open>Both passes without a conflict label\<close>

lemma rejections_iff: "x \<in> set (rejections rs) \<longleftrightarrow> Rejected x \<in> set rs"
proof -
  have "\<And>r. x \<in> set (rejectionOf r) \<longleftrightarrow> r = Rejected x"
    subgoal for r by (cases r) auto
    done
  then show ?thesis by (auto simp: rejections_def)
qed

lemma labelCallback_None_labelled: "pr_labels p \<noteq> [] \<Longrightarrow> labelCallback None p = Rejected TypeError"
  by (simp add: labelCallback_def isAlreadyLabeled_def split: list.splits)

lemma unlabelCallback_None_labelled: "pr_labels p \<noteq> [] \<Longrightarrow> unlabelCallback None p = Rejected TypeError"
  by (simp add: unlabelCallback_def isAlreadyLabeled_def split: list.splits)

lemma reconcile_None_rejects:
  assumes "p \<in> set prs" "pr_mergeable p \<noteq> UNKNOWN" "pr_labels p \<noteq> []"
  shows "TypeError \<in> set (rejections (reconcile None prs))"
proof (cases "pr_mergeable p")
  case CONFLICTING
  with assms have "p \<in> set (pullrequestsWithConflicts prs)" by (simp add: pullrequestsWithConflicts_def)
  then have "labelCallback None p \<in> set (reconcile None prs)" by (simp add: reconcile_def)
  with assms show ?thesis by (simp add: rejections_iff labelCallback_None_labelled)
next
  case MERGEABLE
  with assms have "p \<in> set (pullrequestsWithConflictResolution prs)" by (simp add: pullrequestsWithConflictResolution_def)
  then have "unlabelCallback None p \<in> set (reconcile None prs)" by (simp add: reconcile_def)
  with assms show ?thesis by (simp add: rejections_iff unlabelCallback_None_labelled)
next
  case UNKNOWN
  with assms show ?thesis by simp
qed

subsection \<open>The requests of both passes with a conflict label\<close>

lemma hasLabelId_iff: "hasLabelId lid p \<longleftrightarrow> lid \<in> label_id ` set (pr_labels p)"
  by (auto simp: hasLabelId_def find_None_iff)

lemma isAlreadyLabeled_Some:
  "isAlreadyLabeled (Some cl) p = Inr (find (\<lambda>label. label_id label = label_id cl) (pr_labels p))"
  by (simp add: isAlreadyLabeled_def split: list.splits)

lemma requestOf_labelCallback:
  "requestOf (labelCallback (Some cl) p) =
     (if hasLabelId (label_id cl) p then [] else [AddLabels (label_id cl) (pr_id p)])"
  by (simp add: labelCallback_def isAlreadyLabeled_Some hasLabelId_def split: option.splits)

lemma requestOf_unlabelCallback:
  "requestOf (unlabelCallback (Some cl) p) =
     (if hasLabelId (label_id cl) p then [RemoveLabels (label_id cl) (pr_id p)] else [])"
  by (simp add: unlabelCallback_def isAlreadyLabeled_Some hasLabelId_def split: option.splits)

lemma concat_map_if: "concat (map (\<lambda>x. if P x then [g x] else []) xs) = map g (filter P xs)"
  by (induction xs) auto

lemma concat_map_if_not:
  "concat (map (\<lambda>x. if P x then [] else [g x]) xs) = map g (filter (\<lambda>x. \<not> P x) xs)"
  by (induction xs) auto

lemma requests_reconcile_Some:
  "requests (reconcile (Some cl) prs) =
     map (\<lambda>p. AddLabels (label_id cl) (pr_id p))
       (filter (\<lambda>p. pr_mergeable p = CONFLICTING \<and> \<not> hasLabelId (label_id cl) p) prs) @
     map (\<lambda>p. RemoveLabels (label_id cl) (pr_id p))
       (filter (\<lambda>p. pr_mergeable p = MERGEABLE \<and> hasLabelId (label_id cl) p) prs)"
proof -
  have a: "concat (map (requestOf \<circ> labelCallback (Some cl)) xs) =
      map (\<lambda>p. AddLabels (label_id cl) (pr_id p)) (filter (\<lambda>p. \<not> hasLabelId (label_id cl) p) xs)" for xs
    using concat_map_if_not[of "\<lambda>p. hasLabelId (label_id cl) p" "\<lambda>p. AddLabels (label_id cl) (pr_id p)" xs]
    by (simp add: comp_def requestOf_labelCallback)
  have b: "concat (map (requestOf \<circ> unlabelCallback (Some cl)) xs) =
      map (\<lambda>p. RemoveLabels (label_id cl) (pr_id p)) (filter (\<lambda>p. hasLabelId (label_id cl) p) xs)" for xs
    using concat_map_if[of "\<lambda>p. hasLabelId (label_id cl) p" "\<lambda>p. RemoveLabels (label_id cl) (pr_id p)" xs]
    by (simp add: comp_def requestOf_unlabelCallback)
  show ?thesis
    by (simp add: requests_def reconcile_def a b pullrequestsWithConflicts_def
        pullrequestsWithConflictResolution_def conj_commute)
qed

lemma filter_same_key:
  "distinct (map f xs) \<Longrightarrow> x \<in> set xs \<Longrightarrow> filter (\<lambda>q. f q = f x) xs = [x]"
proof (induction xs)
  case Nil
  then show ?case by simp
next
  case (Cons y ys)
  show ?case
  proof (cases "y = x")
    case True
    with Cons.prems have "f x \<notin> f ` set ys" by simp
    then have "\<forall>q \<in> set ys. f q \<noteq> f x" by (metis imageI)
    then have "filter (\<lambda>q. f q = f x) ys = []" by (simp add: filter_empty_conv)
    with True show ?thesis by simp
  next
    case False
    with Cons.prems have "x \<in> set ys" and "f y \<noteq> f x" by auto
    with Cons show ?thesis by simp
  qed
qed

lemma filter_key_and:
  assumes "distinct (map f xs)" "x \<in> set xs"
  shows "filter (\<lambda>q. f q = f x \<and> P q) xs = (if P x then [x] else [])"
proof -
  have "filter (\<lambda>q. f q = f x \<and> P q) xs = filter P (filter (\<lambda>q. f q = f x) xs)"
    by (simp add: conj_commute)
  with filter_same_key[OF assms] show ?thesis by simp
qed

lemma touching_requests:
  assumes "distinct (map pr_id prs)" "p \<in> set prs"
  shows "touching (requests (reconcile (Some cl) prs)) p =
     (if pr_mergeable p = CONFLICTING \<and> \<not> hasLabelId (label_id cl) p
        then [AddLabels (label_id cl) (pr_id p)]
      else if pr_mergeable p = MERGEABLE \<and> hasLabelId (label_id cl) p
        then [RemoveLabels (label_id cl) (pr_id p)]
      else [])"
proof -
  have a: "filter (\<lambda>x. pr_mergeable x = CONFLICTING \<and> \<not> hasLabelId (label_id cl) x \<and> pr_id x = pr_id p) prs =
      (if pr_mergeable p = CONFLICTING \<and> \<not> hasLabelId (label_id cl) p then [p] else [])"
    using filter_key_and[OF assms, of "\<lambda>x. pr_mergeable x = CONFLICTING \<and> \<not> hasLabelId (label_id cl) x"]
    by (simp add: conj_ac)
  have b: "filter (\<lambda>x. pr_mergeable x = MERGEABLE \<and> hasLabelId (label_id cl) x \<and> pr_id x = pr_id p) prs =
      (if pr_mergeable p = MERGEABLE \<and> hasLabelId (label_id cl) p then [p] else [])"
    using filter_key_and[OF assms, of "\<lambda>x. pr_mergeable x = MERGEABLE \<and> hasLabelId (label_id cl) x"]
    by (simp add: conj_ac)
  show ?thesis
    by (simp add: touching_def requests_reconcile_Some filter_map comp_def a b)
qed

subsection \<open>The upstream state after the requests\<close>

lemma applyMutation_other: "labelableId m \<noteq> pr_id p \<Longrightarrow> applyMutation edges m p = p"
  by (auto simp: applyMutation_def)

lemma pr_id_applyMutation: "pr_id (applyMutation edges m p) = pr_id p"
  by (auto simp: applyMutation_def split: mutation.splits option.splits)

lemma pr_mergeable_applyMutation: "pr_mergeable (applyMutation edges m p) = pr_mergeable p"
  by (auto simp: applyMutation_def split: mutation.splits option.splits)

lemma pr_id_upstreamAfter: "pr_id (upstreamAfter edges ms p) = pr_id p"
  unfolding upstreamAfter_def by (induction ms arbitrary: p) (simp_all add: pr_id_applyMutation)

lemma pr_mergeable_upstreamAfter: "pr_mergeable (upstreamAfter edges ms p) = pr_mergeable p"
  unfolding upstreamAfter_def by (induction ms arbitrary: p) (simp_all add: pr_mergeable_applyMutation)

lemma upstreamAfter_touching: "upstreamAfter edges ms p = upstreamAfter edges (touching ms p) p"
  unfolding upstreamAfter_def touching_def
proof (induction ms arbitrary: p)
  case Nil
  then show ?case by simp
next
  case (Cons m ms)
  show ?case
  proof (cases "labelableId m = pr_id p")
    case True
    then show ?thesis using Cons[of "applyMutation edges m p"] by (simp add: pr_id_applyMutation)
  next
    case False
    then show ?thesis using Cons[of p] by (simp add: applyMutation_other)
  qed
qed

lemma touching_succeeded: "touching (succeeded res ms) p = succeeded res (touching ms p)"
  by (auto simp: touching_def succeeded_def intro: filter_cong)

lemma succeeded_all: "\<forall>m \<in> set ms. res m = None \<Longrightarrow> succeeded res ms = ms"
  by (simp add: succeeded_def)

lemma hasLabelId_add:
  assumes "cl \<in> set edges"
  shows "hasLabelId (label_id cl) (applyMutation edges (AddLabels (label_id cl) (pr_id p)) p)"
proof -
  from assms obtain label where f: "find (\<lambda>label. label_id label = label_id cl) edges = Some label"
    by (cases "find (\<lambda>label. label_id label = label_id cl) edges") (auto simp: find_None_iff)
  then have "label_id label = label_id cl" by (auto simp: find_Some_iff)
  with f show ?thesis by (auto simp: applyMutation_def hasLabelId_iff)
qed

lemma hasLabelId_remove:
  "\<not> hasLabelId lid (applyMutation edges (RemoveLabels lid (pr_id p)) p)"
  by (auto simp: applyMutation_def hasLabelId_iff)

lemma upstream_after_reconcile:
  assumes d: "distinct (map pr_id prs)" and p: "p \<in> set prs" and cl: "cl \<in> set edges"
    and ok: "\<forall>m \<in> set (touching (requests (reconcile (Some cl) prs)) p). res m = None"
  shows "upstreamAfter edges (succeeded res (requests (reconcile (Some cl) prs))) p =
     (if pr_mergeable p = CONFLICTING \<and> \<not> hasLabelId (label_id cl) p
        then applyMutation edges (AddLabels (label_id cl) (pr_id p)) p
      else if pr_mergeable p = MERGEABLE \<and> hasLabelId (label_id cl) p
        then applyMutation edges (RemoveLabels (label_id cl) (pr_id p)) p
      else p)"
proof -
  have "upstreamAfter edges (succeeded res (requests (reconcile (Some cl) prs))) p =
        upstreamAfter edges (touching (requests (reconcile (Some cl) prs)) p) p"
    using upstreamAfter_touching[of edges "succeeded res (requests (reconcile (Some cl) prs))" p]
    by (simp add: touching_succeeded succeeded_all[OF ok])
  then show ?thesis
    by (simp add: touching_requests[OF d p] upstreamAfter_def)
qed

lemma converged_after_reconcile:
  assumes d: "distinct (map pr_id prs)" and p: "p \<in> set prs" and cl: "cl \<in> set edges"
    and ok: "\<forall>m \<in> set (touching (requests (reconcile (Some cl) prs)) p). res m = None"
  shows "hasLabelId (label_id cl) (upstreamAfter edges (succeeded res (requests (reconcile (Some cl) prs))) p)
     \<longleftrightarrow> pr_mergeable p = CONFLICTING \<or> (pr_mergeable p = UNKNOWN \<and> hasLabelId (label_id cl) p)"
  using hasLabelId_add[OF cl, of p] hasLabelId_remove[of "label_id cl" edges p]
  by (cases "pr_mergeable p") (auto simp: upstream_after_reconcile[OF d p cl ok])

subsection \<open>Requests and their targets\<close>

lemma resolveLabel_found:
  assumes "getLabels e = Inr edges" "findConflictLabel (conflictLabelName e) edges = Some cl"
  shows "resolveLabel (conflictLabelName e) (getLabels e) = ([], Some cl)" and "cl \<in> set edges"
proof -
  from assms show "resolveLabel (conflictLabelName e) (getLabels e) = ([], Some cl)"
    by (simp add: resolveLabel_def)
  from assms(2) show "cl \<in> set edges"
    by (auto simp: findConflictLabel_def find_Some_iff)
qed

lemma runWith_mutationResult:
  "runWith maxRetries (e\<lparr>mutationResult := res\<rparr>) = runWith maxRetries e"
  by (simp add: runWith_def)

lemma requests_target:
  assumes "m \<in> set (requests (reconcile c prs))"
  shows "\<exists>p \<in> set prs. labelableId m = pr_id p \<and>
           (case m of AddLabels _ _ \<Rightarrow> pr_mergeable p = CONFLICTING
                    | RemoveLabels _ _ \<Rightarrow> pr_mergeable p = MERGEABLE)"
proof (cases c)
  case None
  with assms show ?thesis by (simp add: requests_reconcile_None)
next
  case (Some cl)
  with assms show ?thesis by (auto simp: requests_reconcile_Some)
qed

lemma touching_unknown:
  assumes "distinct (map pr_id prs)" "p \<in> set prs" "pr_mergeable p = UNKNOWN"
  shows "touching (requests (reconcile c prs)) p = []"
proof (cases c)
  case None
  then show ?thesis by (simp add: requests_reconcile_None touching_def)
next
  case (Some cl)
  with assms show ?thesis by (simp add: touching_requests)
qed

lemma upstreamAfter_untouched:
  assumes "touching ms p = []"
  shows "upstreamAfter edges (succeeded res ms) p = p"
proof -
  have "touching (succeeded res ms) p = succeeded res []"
    by (simp only: touching_succeeded assms)
  then have "touching (succeeded res ms) p = []"
    by (simp add: succeeded_def)
  with upstreamAfter_touching[of edges "succeeded res ms" p] show ?thesis
    by (simp add: upstreamAfter_def)
qed

lemma settled_failure:
  assumes "a \<in> set (inFlight r)" "mutationResult e a = Some error"
  shows "AddLabelsFailed error \<in> set (settledFailures e r) \<or> RemoveLabelsFailed error \<in> set (settledFailures e r)"
proof -
  from assms(2) have "settleOne (mutationResult e) a = [AddLabelsFailed error] \<or>
        settleOne (mutationResult e) a = [RemoveLabelsFailed error]"
    by (cases a) (simp_all add: settleOne_def)
  with assms(1) show ?thesis
    by (fastforce simp: settledFailures_def)
qed

subsection \<open>The polling loop\<close>

lemma pollBody_step:
  assumes "pollInv fetch s" and "pullrequestsWithoutMergeStatus s \<noteq> []"
  shows "\<exists>s2. pollBody fetch s = Inr s2 \<and> pollInv fetch s2 \<and> tries s2 = Suc (tries s)
           \<and> waits s2 = Suc (waits s)
           \<and> set (pollFailures s) \<subseteq> set (pollFailures s2)
           \<and> (\<forall>x. fetch (Suc (tries s)) = Inl x \<longrightarrow> GetPullRequestsFailed x \<in> set (pollFailures s2))"
proof -
  from assms(1) obtain prs where prs: "pullRequests s = Some prs"
      "pullrequestsWithoutMergeStatus s = getPullrequestsWithoutMergeStatus prs"
    by (auto simp: pollInv_def)
  show ?thesis
  proof (cases "fetch (Suc (tries s))")
    case (Inl x)
    with prs assms(2) show ?thesis
      by (auto simp: pollBody_def pollFetch_def Let_def pollInv_def reportsNoUnknown_def)
  next
    case (Inr new)
    with prs assms(2) show ?thesis
      by (simp add: pollBody_def pollFetch_def Let_def pollInv_def reportsNoUnknown_def)
  qed
qed

lemma poll_from:
  assumes "pollInv fetch s"
  shows "\<exists>s'. poll maxRetries fetch s = Inr s' \<and> pollInv fetch s' \<and> tries s \<le> tries s'
           \<and> (pullrequestsWithoutMergeStatus s' = [] \<or> maxRetries \<le> tries s')
           \<and> (\<forall>k. tries s \<le> k \<and> k < tries s' \<longrightarrow> \<not> reportsNoUnknown fetch k \<and> k < maxRetries)
           \<and> waits s' = waits s + (tries s' - tries s)
           \<and> set (pollFailures s) \<subseteq> set (pollFailures s')
           \<and> (\<forall>k x. tries s < k \<and> k \<le> tries s' \<and> fetch k = Inl x \<longrightarrow>
                 GetPullRequestsFailed x \<in> set (pollFailures s'))"
  using assms
proof (induction maxRetries fetch s rule: poll.induct)
  case (1 maxRetries fetch s)
  from "1.prems" have pos: "0 < tries s" by (simp add: pollInv_def)
  show ?case
  proof (cases "pollCondition maxRetries s")
    case False
    then have "poll maxRetries fetch s = Inr s" by (simp add: poll.simps)
    moreover from False pos have "pullrequestsWithoutMergeStatus s = [] \<or> maxRetries \<le> tries s"
      by (auto simp: pollCondition_def)
    ultimately show ?thesis using "1.prems" by auto
  next
    case True
    with pos have ne: "pullrequestsWithoutMergeStatus s \<noteq> []" and lt: "tries s < maxRetries"
      by (auto simp: pollCondition_def)
    from "1.prems" ne have nr: "\<not> reportsNoUnknown fetch (tries s)" by (simp add: pollInv_def)
    from pollBody_step[OF "1.prems" ne] obtain s2 where
      b: "pollBody fetch s = Inr s2" and i2: "pollInv fetch s2" and t2: "tries s2 = Suc (tries s)"
      and w2: "waits s2 = Suc (waits s)" and f2: "set (pollFailures s) \<subseteq> set (pollFailures s2)"
      and e2: "\<forall>x. fetch (Suc (tries s)) = Inl x \<longrightarrow> GetPullRequestsFailed x \<in> set (pollFailures s2)"
      by blast
    from "1.IH"[OF True b i2] obtain s' where
      p: "poll maxRetries fetch s2 = Inr s'" and i': "pollInv fetch s'" and t': "tries s2 \<le> tries s'"
      and st: "pullrequestsWithoutMergeStatus s' = [] \<or> maxRetries \<le> tries s'"
      and bef: "\<forall>k. tries s2 \<le> k \<and> k < tries s' \<longrightarrow> \<not> reportsNoUnknown fetch k \<and> k < maxRetries"
      and w': "waits s' = waits s2 + (tries s' - tries s2)"
      and f': "set (pollFailures s2) \<subseteq> set (pollFailures s')"
      and e': "\<forall>k x. tries s2 < k \<and> k \<le> tries s' \<and> fetch k = Inl x \<longrightarrow>
                 GetPullRequestsFailed x \<in> set (pollFailures s')"
      by blast
    have r: "poll maxRetries fetch s = Inr s'"
      using True b p by (simp add: poll.simps[of maxRetries fetch s])
    have a1: "tries s \<le> tries s'" using t2 t' by simp
    have a2: "\<forall>k. tries s \<le> k \<and> k < tries s' \<longrightarrow> \<not> reportsNoUnknown fetch k \<and> k < maxRetries"
    proof (intro allI impI)
      fix k assume k: "tries s \<le> k \<and> k < tries s'"
      show "\<not> reportsNoUnknown fetch k \<and> k < maxRetries"
      proof (cases "k = tries s")
        case True
        with nr lt show ?thesis by simp
      next
        case False
        with k t2 have "tries s2 \<le> k \<and> k < tries s'" by simp
        with bef show ?thesis by blast
      qed
    qed
    have a3: "waits s' = waits s + (tries s' - tries s)" using w' w2 t2 t' by simp
    have a4: "set (pollFailures s) \<subseteq> set (pollFailures s')" using f2 f' by blast
    have a5: "\<forall>k x. tries s < k \<and> k \<le> tries s' \<and> fetch k = Inl x \<longrightarrow>
                 GetPullRequestsFailed x \<in> set (pollFailures s')"
    proof (intro allI impI)
      fix k x assume k: "tries s < k \<and> k \<le> tries s' \<and> fetch k = Inl x"
      show "GetPullRequestsFailed x \<in> set (pollFailures s')"
      proof (cases "k = Suc (tries s)")
        case True
        with k e2 have "GetPullRequestsFailed x \<in> set (pollFailures s2)" by simp
        with f' show ?thesis by blast
      next
        case False
        with k t2 have "tries s2 < k \<and> k \<le> tries s' \<and> fetch k = Inl x" by simp
        with e' show ?thesis by blast
      qed
    qed
    from r i' a1 st a2 a3 a4 a5 show ?thesis by blast
  qed
qed

lemma poll_first_Inl:
  assumes "fetch (Suc 0) = Inl x"
  shows "poll maxRetries fetch pollInit =
     Inl (TypeError, pollInit\<lparr>tries := Suc 0, pollFailures := [GetPullRequestsFailed x]\<rparr>)"
  using assms
  by (subst poll.simps)
     (simp add: pollCondition_def pollBody_def pollFetch_def Let_def pollInit_def)

lemma poll_first_Inr:
  assumes "fetch (Suc 0) = Inr prs"
  shows "poll maxRetries fetch pollInit =
     poll maxRetries fetch \<lparr>pullRequests = Some prs,
       pullrequestsWithoutMergeStatus = getPullrequestsWithoutMergeStatus prs,
       tries = Suc 0, waits = 0, pollFailures = []\<rparr>"
  using assms
  by (subst poll.simps)
     (simp add: pollCondition_def pollBody_def pollFetch_def Let_def pollInit_def)

lemma poll_returns:
  assumes "fetch (Suc 0) = Inr prs"
  shows "\<exists>s. poll maxRetries fetch pollInit = Inr s \<and> pollInv fetch s \<and> Suc 0 \<le> tries s
           \<and> (pullrequestsWithoutMergeStatus s = [] \<or> maxRetries \<le> tries s)
           \<and> (\<forall>k. Suc 0 \<le> k \<and> k < tries s \<longrightarrow> \<not> reportsNoUnknown fetch k \<and> k < maxRetries)
           \<and> waits s = tries s - Suc 0
           \<and> (\<forall>k x. Suc 0 \<le> k \<and> k \<le> tries s \<and> fetch k = Inl x \<longrightarrow>
                 GetPullRequestsFailed x \<in> set (pollFailures s))"
proof -
  let ?s1 = "\<lparr>pullRequests = Some prs,
       pullrequestsWithoutMergeStatus = getPullrequestsWithoutMergeStatus prs,
       tries = Suc 0, waits = 0, pollFailures = []\<rparr>"
  have i: "pollInv fetch ?s1"
    using assms by (simp add: pollInv_def reportsNoUnknown_def)
  from poll_from[OF i, of maxRetries] obtain s where
    p: "poll maxRetries fetch ?s1 = Inr s" and i': "pollInv fetch s" and t: "tries ?s1 \<le> tries s"
    and st: "pullrequestsWithoutMergeStatus s = [] \<or> maxRetries \<le> tries s"
    and bef: "\<forall>k. tries ?s1 \<le> k \<and> k < tries s \<longrightarrow> \<not> reportsNoUnknown fetch k \<and> k < maxRetries"
    and w: "waits s = waits ?s1 + (tries s - tries ?s1)"
    and e: "\<forall>k x. tries ?s1 < k \<and> k \<le> tries s \<and> fetch k = Inl x \<longrightarrow>
                 GetPullRequestsFailed x \<in> set (pollFailures s)"
    by blast
  have e': "\<forall>k x. Suc 0 \<le> k \<and> k \<le> tries s \<and> fetch k = Inl x \<longrightarrow>
                 GetPullRequestsFailed x \<in> set (pollFailures s)"
  proof (intro allI impI)
    fix k x assume k: "Suc 0 \<le> k \<and> k \<le> tries s \<and> fetch k = Inl x"
    with assms have "k \<noteq> Suc 0" by auto
    with k have "tries ?s1 < k \<and> k \<le> tries s \<and> fetch k = Inl x" by simp
    with e show "GetPullRequestsFailed x \<in> set (pollFailures s)" by blast
  qed
  from p i' t st bef w e' show ?thesis
    by (simp add: poll_first_Inr[where fetch = fetch and prs = prs, OF assms])
qed

subsection \<open>The run after the loop\<close>

lemma runWith_Inr:
  assumes "poll maxRetries (getPullRequests e) pollInit = Inr s"
  shows "fetches (runWith maxRetries e) = tries s"
    and "waited (runWith maxRetries e) = waits s"
    and "snapshot (runWith maxRetries e) = pullRequests s"
    and "set (pollFailures s) \<subseteq> set (failures (runWith maxRetries e))"
  using assms by (auto simp: runWith_def Let_def split: prod.splits option.splits)

lemma runWith_Inl:
  assumes "poll maxRetries (getPullRequests e) pollInit = Inl (x, s)"
  shows "runWith maxRetries e =
     \<lparr>failures = fst (resolveLabel (conflictLabelName e) (getLabels e)) @ pollFailures s,
      fetches = tries s, waited = waits s, snapshot = pullRequests s, inFlight = [],
      unhandled = [], thrown = Some x\<rparr>"
  using assms by (simp add: runWith_def Let_def split: prod.splits)

lemma fetches_runWith_pos: "Suc 0 \<le> fetches (runWith maxRetries e)"
proof (cases "getPullRequests e (Suc 0)")
  case (Inl x)
  from runWith_Inl[OF poll_first_Inl[where fetch = "getPullRequests e", OF Inl, of maxRetries]]
  show ?thesis by simp
next
  case (Inr prs)
  from poll_returns[where fetch = "getPullRequests e", OF Inr, of maxRetries] obtain s where
    p: "poll maxRetries (getPullRequests e) pollInit = Inr s" and t: "Suc 0 \<le> tries s"
    by blast
  from runWith_Inr(1)[OF p] t show ?thesis by simp
qed

subsection \<open>The example runs, evaluated\<close>

lemma run_exEnvNoLabelLabelled:
  "run exEnvNoLabelLabelled =
     \<lparr>failures = [LabelNotFound ''conflict''], fetches = 1, waited = 0, snapshot = Some [exPR3],
      inFlight = [], unhandled = [TypeError], thrown = None\<rparr>"
  by code_simp

lemma run_exEnv:
  "run exEnv =
     \<lparr>failures = [], fetches = 1, waited = 0, snapshot = Some [exPR1, exPR2, exPR3],
      inFlight = [AddLabels ''L1'' ''PR1'', RemoveLabels ''L1'' ''PR2''], unhandled = [], thrown = None\<rparr>"
  by code_simp

lemma run_exEnvMixed:
  "run exEnvMixed =
     \<lparr>failures = [CannotDetermine], fetches = 60, waited = 59,
      snapshot = Some [exPR1, exPR2, exPR3, exPR4, exPR5],
      inFlight = [AddLabels ''L1'' ''PR1'', RemoveLabels ''L1'' ''PR2''], unhandled = [], thrown = None\<rparr>"
  by code_simp

lemma run_exEnvOneFails:
  "run exEnvOneFails =
     \<lparr>failures = [], fetches = 1, waited = 0, snapshot = Some [exPR1, exPR6],
      inFlight = [AddLabels ''L1'' ''PR1'', AddLabels ''L1'' ''PR6''], unhandled = [], thrown = None\<rparr>"
  by code_simp

subsection \<open>Claim C1\<close>

text \<open>
  Claim C1 states three equivalences. On the snapshot of five pull requests below, with
  the label resolved and every request succeeding, each of them fails in one direction:
  pull request 3 is conflicting and already labelled, so no request names it although its
  fact is not \<open>UNKNOWN\<close>; pull request 4 is unknown and labelled, so the label is applied
  although its fact is not \<open>CONFLICTING\<close>; pull request 5 is unknown and unlabelled, so
  the label is absent although its fact is not \<open>MERGEABLE\<close>.
\<close>

theorem label_state_iff_counterexample:
  "snapshot (run exEnvMixed) = Some [exPR1, exPR2, exPR3, exPR4, exPR5]
   \<and> inFlight (run exEnvMixed) = [AddLabels ''L1'' ''PR1'', RemoveLabels ''L1'' ''PR2'']
   \<and> \<not> (touching (inFlight (run exEnvMixed)) exPR3 = [] \<longleftrightarrow> pr_mergeable exPR3 = UNKNOWN)
   \<and> \<not> (hasLabelId ''L1'' (upstreamAfter [exConflictLabel, exOldLabel] (inFlight (run exEnvMixed)) exPR4)
          \<longleftrightarrow> pr_mergeable exPR4 = CONFLICTING)
   \<and> \<not> (\<not> hasLabelId ''L1'' (upstreamAfter [exConflictLabel, exOldLabel] (inFlight (run exEnvMixed)) exPR5)
          \<longleftrightarrow> pr_mergeable exPR5 = MERGEABLE)"
  by code_simp

text \<open>
  Claim C1, amended to the implications that hold. Let the conflict label be resolved and
  the pull requests of the final snapshot have distinct identifiers, and take a pull
  request of the snapshot whose own request, if one is sent, succeeds. After the requests
  of both passes have settled: if its fact is \<open>CONFLICTING\<close> the conflict label is applied
  to it upstream; if its fact is \<open>MERGEABLE\<close> the label is absent; if its fact is
  \<open>UNKNOWN\<close> no request names it and its upstream state is the fetched one. No request
  names a pull request exactly when its fact is \<open>UNKNOWN\<close> or the label is already as
  its fact wants it.
\<close>

theorem label_state_after_passes:
  assumes "getLabels e = Inr edges"
    and "findConflictLabel (conflictLabelName e) edges = Some cl"
    and "snapshot (runWith maxRetries e) = Some prs"
    and "distinct (map pr_id prs)"
    and "p \<in> set prs"
    and "\<forall>m \<in> set (touching (inFlight (runWith maxRetries e)) p). mutationResult e m = None"
  shows "(pr_mergeable p = CONFLICTING \<longrightarrow>
            hasLabelId (label_id cl)
              (upstreamAfter edges (succeeded (mutationResult e) (inFlight (runWith maxRetries e))) p))
       \<and> (pr_mergeable p = MERGEABLE \<longrightarrow>
            \<not> hasLabelId (label_id cl)
              (upstreamAfter edges (succeeded (mutationResult e) (inFlight (runWith maxRetries e))) p))
       \<and> (pr_mergeable p = UNKNOWN \<longrightarrow>
            touching (inFlight (runWith maxRetries e)) p = [] \<and>
            upstreamAfter edges (succeeded (mutationResult e) (inFlight (runWith maxRetries e))) p = p)
       \<and> (touching (inFlight (runWith maxRetries e)) p = [] \<longleftrightarrow>
            pr_mergeable p = UNKNOWN \<or>
            (pr_mergeable p = CONFLICTING \<and> hasLabelId (label_id cl) p) \<or>
            (pr_mergeable p = MERGEABLE \<and> \<not> hasLabelId (label_id cl) p))"
proof -
  note r = resolveLabel_found[OF assms(1,2)]
  have i: "inFlight (runWith maxRetries e) = requests (reconcile (Some cl) prs)"
    using runWith_snapshot[OF assms(3)] r(1) by simp
  have ok: "\<forall>m \<in> set (touching (requests (reconcile (Some cl) prs)) p). mutationResult e m = None"
    using assms(6) i by simp
  note u = upstream_after_reconcile[OF assms(4,5) r(2) ok]
  note t = touching_requests[OF assms(4,5), of cl]
  show ?thesis
    unfolding i
    using hasLabelId_add[OF r(2), of p] hasLabelId_remove[of "label_id cl" edges p]
    by (cases "pr_mergeable p") (simp_all add: u t)
qed

theorem label_state_after_passes_witness:
  "getLabels exEnv = Inr [exConflictLabel, exOldLabel]
   \<and> findConflictLabel (conflictLabelName exEnv) [exConflictLabel, exOldLabel] = Some exConflictLabel
   \<and> snapshot (run exEnv) = Some [exPR1, exPR2, exPR3]
   \<and> distinct (map pr_id [exPR1, exPR2, exPR3])
   \<and> pr_mergeable exPR1 = CONFLICTING
   \<and> touching (inFlight (run exEnv)) exPR1 = [AddLabels ''L1'' ''PR1'']
   \<and> mutationResult exEnv (AddLabels ''L1'' ''PR1'') = None
   \<and> hasLabelId (label_id exConflictLabel)
        (upstreamAfter [exConflictLabel, exOldLabel]
           (succeeded (mutationResult exEnv) (inFlight (run exEnv))) exPR1)"
proof -
  have a: "getLabels exEnv = Inr [exConflictLabel, exOldLabel]" by (simp add: exEnv_def)
  have b: "findConflictLabel (conflictLabelName exEnv) [exConflictLabel, exOldLabel] = Some exConflictLabel"
    by code_simp
  have c: "snapshot (runWith 60 exEnv) = Some [exPR1, exPR2, exPR3]"
    using run_exEnv by (simp add: run_def)
  have d: "distinct (map pr_id [exPR1, exPR2, exPR3])" by code_simp
  have p: "exPR1 \<in> set [exPR1, exPR2, exPR3]" by simp
  have t: "touching (inFlight (runWith 60 exEnv)) exPR1 = [AddLabels ''L1'' ''PR1'']"
    using run_exEnv by (simp add: run_def touching_def exPR1_def)
  have m: "mutationResult exEnv (AddLabels ''L1'' ''PR1'') = None" by (simp add: exEnv_def)
  have ok: "\<forall>m \<in> set (touching (inFlight (runWith 60 exEnv)) exPR1). mutationResult exEnv m = None"
    by (simp add: t m)
  have f: "pr_mergeable exPR1 = CONFLICTING" by (simp add: exPR1_def)
  from label_state_after_passes[OF a b c d p ok] f a b c d t m
  show ?thesis by (simp add: run_def)
qed

subsection \<open>Claim C2\<close>

text \<open>
  Claim C2. The loop always makes a first fetch. When that fetch succeeds the loop returns
  after \<open>tries\<close> attempts, where \<open>tries\<close> is the first attempt from 1 on at which the
  fetch reports no unknown pull request or the counter has reached \<open>maxRetries\<close>: every
  earlier attempt left unknown pull requests and was below \<open>maxRetries\<close>. It has waited
  once before every attempt but the first, and \<^verbatim>\<open>pullrequestsWithoutMergeStatus\<close> holds
  the unknown pull requests of the snapshot it ends with. When no fetch ever reports all
  facts known, the number of attempts is \<open>maxRetries\<close> (and 1 for \<open>maxRetries = 0\<close>);
  with \<open>maxRetries = 3\<close> and one pull request that stays unknown that is 3 attempts and
  one unresolved pull request, as the evaluation after the theorem shows. When the first
  fetch fails, the loop is left at attempt 1 by the \<^verbatim>\<open>TypeError\<close> of reading the
  undefined \<^verbatim>\<open>pullRequests\<close>.
\<close>

theorem polling_loop_stops:
  "case poll maxRetries fetch pollInit of
     Inl (error, s) \<Rightarrow> isl (fetch 1) \<and> error = TypeError \<and> tries s = 1
   | Inr s \<Rightarrow>
       \<not> isl (fetch 1) \<and> 1 \<le> tries s
       \<and> (reportsNoUnknown fetch (tries s) \<or> maxRetries \<le> tries s)
       \<and> (\<forall>k \<in> {1..<tries s}. \<not> reportsNoUnknown fetch k \<and> k < maxRetries)
       \<and> (\<exists>prs. pullRequests s = Some prs \<and>
             pullrequestsWithoutMergeStatus s = getPullrequestsWithoutMergeStatus prs)
       \<and> (pullrequestsWithoutMergeStatus s = [] \<longleftrightarrow> reportsNoUnknown fetch (tries s))
       \<and> waits s = tries s - 1
       \<and> ((\<forall>k. \<not> reportsNoUnknown fetch k) \<longrightarrow> tries s = max 1 maxRetries)"
proof (cases "fetch (Suc 0)")
  case (Inl x)
  from poll_first_Inl[where fetch = fetch, OF Inl, of maxRetries] Inl show ?thesis by simp
next
  case (Inr prs)
  from poll_returns[where fetch = fetch, OF Inr, of maxRetries] obtain s where
    p: "poll maxRetries fetch pollInit = Inr s" and i: "pollInv fetch s" and t: "Suc 0 \<le> tries s"
    and st: "pullrequestsWithoutMergeStatus s = [] \<or> maxRetries \<le> tries s"
    and bef: "\<forall>k. Suc 0 \<le> k \<and> k < tries s \<longrightarrow> \<not> reportsNoUnknown fetch k \<and> k < maxRetries"
    and w: "waits s = tries s - Suc 0"
    by blast
  from i have iff: "pullrequestsWithoutMergeStatus s = [] \<longleftrightarrow> reportsNoUnknown fetch (tries s)"
    and ex: "\<exists>prs. pullRequests s = Some prs \<and>
             pullrequestsWithoutMergeStatus s = getPullrequestsWithoutMergeStatus prs"
    by (auto simp: pollInv_def)
  have never: "tries s = max 1 maxRetries" if n: "\<forall>k. \<not> reportsNoUnknown fetch k"
  proof -
    from n iff st have ge: "maxRetries \<le> tries s" by blast
    have "tries s \<le> max 1 maxRetries"
    proof (rule ccontr)
      assume "\<not> tries s \<le> max 1 maxRetries"
      then have "Suc 0 \<le> tries s - 1 \<and> tries s - 1 < tries s \<and> \<not> tries s - 1 < maxRetries" by auto
      with bef show False by blast
    qed
    with ge t show ?thesis by simp
  qed
  have c1: "\<not> isl (fetch 1)" using Inr by simp
  have c2: "1 \<le> tries s" using t by simp
  have c3: "reportsNoUnknown fetch (tries s) \<or> maxRetries \<le> tries s" using st iff by blast
  have c4: "\<forall>k \<in> {1..<tries s}. \<not> reportsNoUnknown fetch k \<and> k < maxRetries"
    using bef by simp
  have c7: "waits s = tries s - 1" using w by simp
  have c8: "(\<forall>k. \<not> reportsNoUnknown fetch k) \<longrightarrow> tries s = max 1 maxRetries"
    using never by blast
  from c1 c2 c3 c4 ex iff c7 c8 show ?thesis
    unfolding p sum.case by blast
qed

theorem polling_loop_stops_witness:
  "(\<forall>k. \<not> reportsNoUnknown (getPullRequests exEnvNeverResolves) k)
   \<and> (case poll 3 (getPullRequests exEnvNeverResolves) pollInit of
        Inl t \<Rightarrow> False
      | Inr s \<Rightarrow> tries s = 3 \<and> length (pullrequestsWithoutMergeStatus s) = 1)
   \<and> fetches (runWith 3 exEnvNeverResolves) = 3
   \<and> failures (runWith 3 exEnvNeverResolves) = [CannotDetermine]
   \<and> reportsNoUnknown (getPullRequests exEnvResolvesAt4) 4
   \<and> (case poll 60 (getPullRequests exEnvResolvesAt4) pollInit of
        Inl t \<Rightarrow> False
      | Inr s \<Rightarrow> tries s = 4 \<and> pullrequestsWithoutMergeStatus s = [])"
proof -
  have n: "\<forall>k. \<not> reportsNoUnknown (getPullRequests exEnvNeverResolves) k"
    by (simp add: reportsNoUnknown_def exEnvNeverResolves_def getPullrequestsWithoutMergeStatus_def exPR5_def)
  have l: "case poll 3 (getPullRequests exEnvNeverResolves) pollInit of
        Inl t \<Rightarrow> False
      | Inr s \<Rightarrow> length (pullrequestsWithoutMergeStatus s) = 1"
    by code_simp
  note th = polling_loop_stops[where maxRetries = 3 and fetch = "getPullRequests exEnvNeverResolves"]
  have a: "case poll 3 (getPullRequests exEnvNeverResolves) pollInit of
        Inl t \<Rightarrow> False
      | Inr s \<Rightarrow> tries s = 3 \<and> length (pullrequestsWithoutMergeStatus s) = 1"
  proof (cases "poll 3 (getPullRequests exEnvNeverResolves) pollInit")
    case (Inl t)
    with l show ?thesis by simp
  next
    case (Inr s)
    from th[unfolded Inr sum.case] n have "tries s = max 1 3" by blast
    with l show ?thesis unfolding Inr sum.case by simp
  qed
  have b: "fetches (runWith 3 exEnvNeverResolves) = 3 \<and>
      failures (runWith 3 exEnvNeverResolves) = [CannotDetermine]"
    by code_simp
  have c: "reportsNoUnknown (getPullRequests exEnvResolvesAt4) 4" by code_simp
  have d: "case poll 60 (getPullRequests exEnvResolvesAt4) pollInit of
        Inl t \<Rightarrow> False
      | Inr s \<Rightarrow> tries s = 4 \<and> pullrequestsWithoutMergeStatus s = []"
    by code_simp
  from n a b c d show ?thesis by blast
qed

subsection \<open>Claim C3\<close>

text \<open>
  Claim C3 on the code. No label has the configured name, one pull request is conflicting
  and unlabelled, one stays unknown. The claim has the run fail and abort at the missing
  label. The code reports the missing label and does not return: it polls its 60
  attempts with 59 waits, reports the staleness, enters the label pass, where the
  argument \<^verbatim>\<open>conflictLabel.node.id\<close> of the add-label request is read from the undefined
  \<^verbatim>\<open>conflictLabel\<close> and the \<^verbatim>\<open>TypeError\<close> is reported as a failed request, and
  \<^verbatim>\<open>run\<close> returns normally. No request is sent.
\<close>

theorem label_not_found_run_goes_on:
  "getLabels exEnvNoLabelUnknown = Inr [exConflictLabel, exOldLabel]
   \<and> findConflictLabel (conflictLabelName exEnvNoLabelUnknown) [exConflictLabel, exOldLabel] = None
   \<and> failures (run exEnvNoLabelUnknown) =
       [LabelNotFound ''conflict'', CannotDetermine, AddLabelsFailed TypeError]
   \<and> fetches (run exEnvNoLabelUnknown) = 60
   \<and> waited (run exEnvNoLabelUnknown) = 59
   \<and> snapshot (run exEnvNoLabelUnknown) = Some [exPR1, exPR4]
   \<and> inFlight (run exEnvNoLabelUnknown) = []
   \<and> thrown (run exEnvNoLabelUnknown) = None"
  by code_simp

text \<open>
  The part of the claim the code keeps, for every input: with no label of the configured
  name the missing label is the first failure reported and no add-label and no
  remove-label request is sent, while at least one pull-request fetch is still made.
\<close>

lemma no_request_when_label_not_found:
  assumes "getLabels e = Inr edges"
    and "\<forall>label \<in> set edges. label_name label \<noteq> conflictLabelName e"
  shows "hd (failures (runWith maxRetries e)) = LabelNotFound (conflictLabelName e)
       \<and> failedAtReturn (runWith maxRetries e)
       \<and> 1 \<le> fetches (runWith maxRetries e)
       \<and> inFlight (runWith maxRetries e) = []
       \<and> settledFailures e (runWith maxRetries e) = failures (runWith maxRetries e)"
proof -
  from assms have r: "resolveLabel (conflictLabelName e) (getLabels e) = ([LabelNotFound (conflictLabelName e)], None)"
    by (simp add: resolveLabel_def findConflictLabel_None[symmetric])
  obtain rest where f: "failures (runWith maxRetries e) = LabelNotFound (conflictLabelName e) # rest"
    using failures_runWith_prefix[of maxRetries e] r by auto
  have i: "inFlight (runWith maxRetries e) = []"
    using r by (simp add: inFlight_runWith_None)
  show ?thesis using f i fetches_runWith_pos[of maxRetries e]
    by (simp add: failedAtReturn_def settledFailures_def)
qed

subsection \<open>Claim C4\<close>

text \<open>
  Claim C4 on the code. The claim has a fetch error end the run at once, with polling,
  classification and both passes skipped and no label request after it. In the first run
  below the second pull-request fetch fails: the \<^verbatim>\<open>catch\<close> block reports it and does
  not return, the run fetches a third time, classifies the third snapshot and sends an
  add-label request. In the second run the label fetch fails: the run still fetches the
  pull requests and enters both passes, where every callback stops at the undefined
  \<^verbatim>\<open>conflictLabel\<close>.
\<close>

theorem fetch_error_run_goes_on:
  "getPullRequests exEnvFetchFailsOnce 2 = Inl (TransportError ''timeout'')
   \<and> failures (run exEnvFetchFailsOnce) = [GetPullRequestsFailed (TransportError ''timeout'')]
   \<and> fetches (run exEnvFetchFailsOnce) = 3
   \<and> snapshot (run exEnvFetchFailsOnce) = Some [exPR1]
   \<and> inFlight (run exEnvFetchFailsOnce) = [AddLabels ''L1'' ''PR1'']
   \<and> thrown (run exEnvFetchFailsOnce) = None
   \<and> getLabels exEnvLabelFetchFails = Inl (TransportError ''timeout'')
   \<and> fetches (run exEnvLabelFetchFails) = 1
   \<and> snapshot (run exEnvLabelFetchFails) = Some [exPR1, exPR2, exPR3]
   \<and> failures (run exEnvLabelFetchFails) =
       [GetLabelsFailed (TransportError ''timeout''), AddLabelsFailed TypeError]
   \<and> unhandled (run exEnvLabelFetchFails) = [TypeError, TypeError]"
  by code_simp

text \<open>
  The part of the claim the code keeps, for every input: a failed label fetch is the first
  failure reported and no label request is sent after it; a failed first pull-request
  fetch ends the run at that attempt; every pull-request fetch that fails, at any attempt
  the run makes, is reported and leaves the run failed.
\<close>

lemma fetch_errors_reported:
  "(getLabels e = Inl x \<longrightarrow>
      hd (failures (runWith maxRetries e)) = GetLabelsFailed x
      \<and> failedAtReturn (runWith maxRetries e)
      \<and> inFlight (runWith maxRetries e) = [])
   \<and> (getPullRequests e 1 = Inl y \<longrightarrow>
      thrown (runWith maxRetries e) = Some TypeError
      \<and> fetches (runWith maxRetries e) = 1
      \<and> snapshot (runWith maxRetries e) = None
      \<and> inFlight (runWith maxRetries e) = []
      \<and> unhandled (runWith maxRetries e) = [])
   \<and> (1 \<le> k \<and> k \<le> fetches (runWith maxRetries e) \<and> getPullRequests e k = Inl y \<longrightarrow>
      GetPullRequestsFailed y \<in> set (failures (runWith maxRetries e))
      \<and> failedAtReturn (runWith maxRetries e))"
proof -
  have 1: "hd (failures (runWith maxRetries e)) = GetLabelsFailed x
      \<and> failedAtReturn (runWith maxRetries e) \<and> inFlight (runWith maxRetries e) = []"
    if l: "getLabels e = Inl x"
  proof -
    from l have r: "resolveLabel (conflictLabelName e) (getLabels e) = ([GetLabelsFailed x], None)"
      by (simp add: resolveLabel_def)
    obtain rest where f: "failures (runWith maxRetries e) = GetLabelsFailed x # rest"
      using failures_runWith_prefix[of maxRetries e] r by auto
    have "inFlight (runWith maxRetries e) = []" using r by (simp add: inFlight_runWith_None)
    with f show ?thesis by (simp add: failedAtReturn_def)
  qed
  have 2: "thrown (runWith maxRetries e) = Some TypeError
      \<and> fetches (runWith maxRetries e) = 1
      \<and> snapshot (runWith maxRetries e) = None
      \<and> inFlight (runWith maxRetries e) = []
      \<and> unhandled (runWith maxRetries e) = []
      \<and> GetPullRequestsFailed y \<in> set (failures (runWith maxRetries e))"
    if g: "getPullRequests e (Suc 0) = Inl y" for y
    using runWith_Inl[OF poll_first_Inl[where fetch = "getPullRequests e", OF g, of maxRetries]]
    by (simp add: pollInit_def)
  have 3: "GetPullRequestsFailed y \<in> set (failures (runWith maxRetries e))"
    if k: "Suc 0 \<le> k" "k \<le> fetches (runWith maxRetries e)" "getPullRequests e k = Inl y"
  proof (cases "getPullRequests e (Suc 0)")
    case (Inl z)
    from 2[of z] Inl runWith_Inl[OF poll_first_Inl[where fetch = "getPullRequests e", OF Inl, of maxRetries]]
    have "fetches (runWith maxRetries e) = 1"
      and "GetPullRequestsFailed z \<in> set (failures (runWith maxRetries e))"
      by (simp_all add: pollInit_def)
    with k Inl show ?thesis by (cases "k = Suc 0") auto
  next
    case (Inr prs)
    from poll_returns[where fetch = "getPullRequests e", OF Inr, of maxRetries] obtain s where
      p: "poll maxRetries (getPullRequests e) pollInit = Inr s"
      and e: "\<forall>k x. Suc 0 \<le> k \<and> k \<le> tries s \<and> getPullRequests e k = Inl x \<longrightarrow>
                 GetPullRequestsFailed x \<in> set (pollFailures s)"
      by blast
    from k runWith_Inr(1)[OF p] e have "GetPullRequestsFailed y \<in> set (pollFailures s)" by auto
    with runWith_Inr(4)[OF p] show ?thesis by blast
  qed
  from 1 2 3 show ?thesis by (auto simp: failedAtReturn_def)
qed

subsection \<open>Claim C5\<close>

text \<open>
  Claim C5 on the code. One conflicting, unlabelled pull request, and an add-label request
  that the API rejects: when \<^verbatim>\<open>run\<close> returns, the request is in flight, no failure has
  been reported and the run is not failed; the failure is reported only when the request
  settles, after the return. \<^verbatim>\<open>forEach\<close> drops the promises of its \<^verbatim>\<open>async\<close>
  callbacks, so nothing in \<^verbatim>\<open>run\<close> waits for them.
\<close>

theorem run_returns_with_requests_in_flight:
  "inFlight (run exEnvAddFails) = [AddLabels ''L1'' ''PR1'']
   \<and> mutationResult exEnvAddFails (AddLabels ''L1'' ''PR1'') = Some (TransportError ''502'')
   \<and> thrown (run exEnvAddFails) = None
   \<and> failures (run exEnvAddFails) = []
   \<and> \<not> failedAtReturn (run exEnvAddFails)
   \<and> settledFailures exEnvAddFails (run exEnvAddFails) = [AddLabelsFailed (TransportError ''502'')]
   \<and> failedFinally exEnvAddFails (run exEnvAddFails)"
  by code_simp

subsection \<open>Claim C6\<close>

text \<open>
  Claim C6. Let the conflict label be resolved and the pull requests of the final snapshot
  have distinct identifiers. If the request sent for one pull request is rejected, the run
  is failed once the requests have settled; the requests the run sends are the same ones
  it sends when every request succeeds; and every pull request of the snapshot whose own
  request succeeds ends with the label its fact wants: applied when \<open>CONFLICTING\<close>,
  absent when \<open>MERGEABLE\<close>.
\<close>

theorem failed_request_does_not_block_others:
  assumes "getLabels e = Inr edges"
    and "findConflictLabel (conflictLabelName e) edges = Some cl"
    and "snapshot (runWith maxRetries e) = Some prs"
    and "distinct (map pr_id prs)"
    and "a \<in> set (inFlight (runWith maxRetries e))"
    and "mutationResult e a = Some error"
    and "p \<in> set prs"
    and "\<forall>m \<in> set (touching (inFlight (runWith maxRetries e)) p). mutationResult e m = None"
  shows "failedFinally e (runWith maxRetries e)
       \<and> inFlight (runWith maxRetries (e\<lparr>mutationResult := (\<lambda>m. None)\<rparr>)) = inFlight (runWith maxRetries e)
       \<and> (pr_mergeable p = CONFLICTING \<longrightarrow>
            hasLabelId (label_id cl)
              (upstreamAfter edges (succeeded (mutationResult e) (inFlight (runWith maxRetries e))) p))
       \<and> (pr_mergeable p = MERGEABLE \<longrightarrow>
            \<not> hasLabelId (label_id cl)
              (upstreamAfter edges (succeeded (mutationResult e) (inFlight (runWith maxRetries e))) p))"
proof -
  note r = resolveLabel_found[OF assms(1,2)]
  have i: "inFlight (runWith maxRetries e) = requests (reconcile (Some cl) prs)"
    using runWith_snapshot[OF assms(3)] r(1) by simp
  have ok: "\<forall>m \<in> set (touching (requests (reconcile (Some cl) prs)) p). mutationResult e m = None"
    using assms(8) i by simp
  have f: "failedFinally e (runWith maxRetries e)"
    using settled_failure[OF assms(5,6)] by (auto simp: failedFinally_def)
  have c: "hasLabelId (label_id cl)
      (upstreamAfter edges (succeeded (mutationResult e) (inFlight (runWith maxRetries e))) p)
      \<longleftrightarrow> pr_mergeable p = CONFLICTING \<or> (pr_mergeable p = UNKNOWN \<and> hasLabelId (label_id cl) p)"
    unfolding i by (rule converged_after_reconcile[OF assms(4,7) r(2) ok])
  from f c show ?thesis by (simp add: runWith_mutationResult)
qed

theorem failed_request_does_not_block_others_witness:
  "snapshot (run exEnvOneFails) = Some [exPR1, exPR6]
   \<and> inFlight (run exEnvOneFails) = [AddLabels ''L1'' ''PR1'', AddLabels ''L1'' ''PR6'']
   \<and> mutationResult exEnvOneFails (AddLabels ''L1'' ''PR1'') = Some (TransportError ''502'')
   \<and> mutationResult exEnvOneFails (AddLabels ''L1'' ''PR6'') = None
   \<and> pr_mergeable exPR6 = CONFLICTING
   \<and> \<not> hasLabelId ''L1'' exPR6
   \<and> failedFinally exEnvOneFails (run exEnvOneFails)
   \<and> hasLabelId ''L1''
        (upstreamAfter [exConflictLabel, exOldLabel]
           (succeeded (mutationResult exEnvOneFails) (inFlight (run exEnvOneFails))) exPR6)"
proof -
  have a: "getLabels exEnvOneFails = Inr [exConflictLabel, exOldLabel]"
    by (simp add: exEnvOneFails_def exEnv_def)
  have b: "findConflictLabel (conflictLabelName exEnvOneFails) [exConflictLabel, exOldLabel] = Some exConflictLabel"
    by code_simp
  have c: "snapshot (runWith 60 exEnvOneFails) = Some [exPR1, exPR6]"
    using run_exEnvOneFails by (simp add: run_def)
  have i: "inFlight (runWith 60 exEnvOneFails) = [AddLabels ''L1'' ''PR1'', AddLabels ''L1'' ''PR6'']"
    using run_exEnvOneFails by (simp add: run_def)
  have d: "distinct (map pr_id [exPR1, exPR6])" by code_simp
  have x: "AddLabels ''L1'' ''PR1'' \<in> set (inFlight (runWith 60 exEnvOneFails))"
    by (simp add: i)
  have m1: "mutationResult exEnvOneFails (AddLabels ''L1'' ''PR1'') = Some (TransportError ''502'')"
    by (simp add: exEnvOneFails_def)
  have m6: "mutationResult exEnvOneFails (AddLabels ''L1'' ''PR6'') = None"
    by (simp add: exEnvOneFails_def)
  have p: "exPR6 \<in> set [exPR1, exPR6]" by simp
  have ok: "\<forall>m \<in> set (touching (inFlight (runWith 60 exEnvOneFails)) exPR6). mutationResult exEnvOneFails m = None"
    by (simp add: i touching_def exPR6_def m6)
  have f: "pr_mergeable exPR6 = CONFLICTING" by (simp add: exPR6_def)
  have l: "label_id exConflictLabel = ''L1''" by (simp add: exConflictLabel_def)
  have n: "\<not> hasLabelId ''L1'' exPR6" by code_simp
  from failed_request_does_not_block_others[OF a b c d x m1 p ok] c i m1 m6 f n
  show ?thesis by (simp add: run_def l)
qed

subsection \<open>Claim C7\<close>

text \<open>
  Claim C7. The label the resolver returns has exactly the configured name and is the
  first label of the candidate list with that name, wherever the list puts it; it returns
  none exactly when no candidate has that name. For the candidates
  \<^verbatim>\<open>has conflicts\<close> and \<^verbatim>\<open>has-conflicts-old\<close> and the name \<^verbatim>\<open>has conflicts\<close> it returns
  the first one.
\<close>

theorem resolver_exact_name:
  "(case snd (resolveLabel name (Inr edges)) of
      None \<Rightarrow> name \<notin> label_name ` set edges
    | Some label \<Rightarrow>
        label_name label = name \<and>
        (\<exists>i<length edges. edges ! i = label \<and> (\<forall>j<i. label_name (edges ! j) \<noteq> name)))
   \<and> snd (resolveLabel ''has conflicts''
        (Inr [\<lparr>label_id = a, label_name = ''has conflicts''\<rparr>,
              \<lparr>label_id = b, label_name = ''has-conflicts-old''\<rparr>]))
      = Some \<lparr>label_id = a, label_name = ''has conflicts''\<rparr>"
proof -
  have s: "snd (resolveLabel name (Inr edges)) = findConflictLabel name edges"
    by (simp add: resolveLabel_def split: option.splits)
  have "findConflictLabel name edges = None \<Longrightarrow> name \<notin> label_name ` set edges"
    by (auto simp: findConflictLabel_None)
  moreover have "\<And>label. findConflictLabel name edges = Some label \<Longrightarrow>
      label_name label = name \<and>
      (\<exists>i<length edges. edges ! i = label \<and> (\<forall>j<i. label_name (edges ! j) \<noteq> name))"
    by (auto simp: findConflictLabel_def find_Some_iff)
  ultimately have g: "case findConflictLabel name edges of
      None \<Rightarrow> name \<notin> label_name ` set edges
    | Some label \<Rightarrow>
        label_name label = name \<and>
        (\<exists>i<length edges. edges ! i = label \<and> (\<forall>j<i. label_name (edges ! j) \<noteq> name))"
    by (simp split: option.splits)
  have x: "snd (resolveLabel ''has conflicts''
        (Inr [\<lparr>label_id = a, label_name = ''has conflicts''\<rparr>,
              \<lparr>label_id = b, label_name = ''has-conflicts-old''\<rparr>]))
      = Some \<lparr>label_id = a, label_name = ''has conflicts''\<rparr>"
    by (simp add: resolveLabel_def findConflictLabel_def)
  from g x show ?thesis unfolding s by simp
qed

theorem resolver_exact_name_witness:
  "snd (resolveLabel ''has conflicts'' (Inr [exOldLabel, exConflictLabel])) = Some exConflictLabel
   \<and> snd (resolveLabel ''has conflicts'' (Inr [exConflictLabel, exOldLabel])) = Some exConflictLabel
   \<and> snd (resolveLabel ''has conflicts'' (Inr [exOldLabel])) = None"
  using resolver_exact_name[of "''has conflicts''" "[exOldLabel, exConflictLabel]" "''L1''" "''L2''"]
  by (simp add: resolveLabel_def findConflictLabel_def exOldLabel_def exConflictLabel_def)

subsection \<open>Claim C8\<close>

text \<open>
  Claim C8 speaks of a second run on the unchanged snapshot. The passes are a function of
  the snapshot they are given and keep nothing between runs: on the same three pull
  requests they send the same two requests every time.
\<close>

theorem reconciler_same_snapshot_counterexample:
  "snd (resolveLabel ''has conflicts'' (Inr [exConflictLabel, exOldLabel])) = Some exConflictLabel
   \<and> requests (reconcile (Some exConflictLabel) [exPR1, exPR2, exPR3]) \<noteq> []
   \<and> inFlight (run exEnv) = [AddLabels ''L1'' ''PR1'', RemoveLabels ''L1'' ''PR2'']"
  by code_simp

text \<open>
  Claim C8, amended to the snapshot a second run fetches. Take a snapshot whose pull
  requests have distinct identifiers, let both passes send their requests, and let all of
  them take effect upstream, nothing else changing. On the pull requests as they then are
  upstream, both passes send no request.
\<close>

theorem reconciler_idempotent:
  assumes "distinct (map pr_id prs)"
    and "conflictLabel = snd (resolveLabel name (Inr edges))"
  shows "requests (reconcile conflictLabel
           (map (upstreamAfter edges (requests (reconcile conflictLabel prs))) prs)) = []"
proof (cases conflictLabel)
  case None
  then show ?thesis by (simp add: requests_reconcile_None)
next
  case (Some cl)
  with assms(2) have "findConflictLabel name edges = Some cl"
    by (simp add: resolveLabel_def split: option.splits)
  then have cl: "cl \<in> set edges" by (auto simp: findConflictLabel_def find_Some_iff)
  let ?ms = "requests (reconcile (Some cl) prs)"
  have s: "succeeded (\<lambda>m. None) ?ms = ?ms" by (simp add: succeeded_def)
  have conv: "hasLabelId (label_id cl) (upstreamAfter edges ?ms p)
      \<longleftrightarrow> pr_mergeable p = CONFLICTING \<or> (pr_mergeable p = UNKNOWN \<and> hasLabelId (label_id cl) p)"
    if "p \<in> set prs" for p
    using converged_after_reconcile[OF assms(1) that cl, of "\<lambda>m. None"] by (simp add: s)
  have 1: "filter (\<lambda>p. pr_mergeable p = CONFLICTING \<and> \<not> hasLabelId (label_id cl) p)
             (map (upstreamAfter edges ?ms) prs) = []"
    by (auto simp: filter_empty_conv pr_mergeable_upstreamAfter conv)
  have 2: "filter (\<lambda>p. pr_mergeable p = MERGEABLE \<and> hasLabelId (label_id cl) p)
             (map (upstreamAfter edges ?ms) prs) = []"
    by (auto simp: filter_empty_conv pr_mergeable_upstreamAfter conv)
  show ?thesis unfolding Some requests_reconcile_Some[of cl "map (upstreamAfter edges ?ms) prs"]
    by (simp only: 1 2) simp
qed

theorem reconciler_idempotent_witness:
  "distinct (map pr_id [exPR1, exPR2, exPR3])
   \<and> snd (resolveLabel ''has conflicts'' (Inr [exConflictLabel, exOldLabel])) = Some exConflictLabel
   \<and> requests (reconcile (Some exConflictLabel) [exPR1, exPR2, exPR3])
       = [AddLabels ''L1'' ''PR1'', RemoveLabels ''L1'' ''PR2'']
   \<and> requests (reconcile (Some exConflictLabel)
        (map (upstreamAfter [exConflictLabel, exOldLabel]
                (requests (reconcile (Some exConflictLabel) [exPR1, exPR2, exPR3])))
           [exPR1, exPR2, exPR3])) = []"
proof -
  have d: "distinct (map pr_id [exPR1, exPR2, exPR3])" by code_simp
  have r: "Some exConflictLabel = snd (resolveLabel ''has conflicts'' (Inr [exConflictLabel, exOldLabel]))"
    by code_simp
  have q: "requests (reconcile (Some exConflictLabel) [exPR1, exPR2, exPR3])
       = [AddLabels ''L1'' ''PR1'', RemoveLabels ''L1'' ''PR2'']"
    by code_simp
  from reconciler_idempotent[OF d r] d r[symmetric] q show ?thesis by simp
qed

subsection \<open>Claim C9\<close>

text \<open>
  Claim C9. A pull request of the final snapshot whose fact is \<open>UNKNOWN\<close> is in neither
  list the passes iterate over; every pull request in those lists has exactly one of the
  facts \<open>CONFLICTING\<close> and \<open>MERGEABLE\<close>; every request the run sends names a pull
  request of the snapshot whose fact is not \<open>UNKNOWN\<close>; and, identifiers being distinct,
  no request names the unknown pull request and its upstream state stays as fetched.
\<close>

theorem unknown_left_out_of_both_passes:
  assumes "snapshot (runWith maxRetries e) = Some prs"
    and "p \<in> set prs"
    and "pr_mergeable p = UNKNOWN"
  shows "p \<notin> set (pullrequestsWithConflicts prs)
       \<and> p \<notin> set (pullrequestsWithConflictResolution prs)
       \<and> (\<forall>q \<in> set (pullrequestsWithConflicts prs) \<union> set (pullrequestsWithConflictResolution prs).
            (pr_mergeable q = CONFLICTING) \<noteq> (pr_mergeable q = MERGEABLE))
       \<and> (\<forall>m \<in> set (inFlight (runWith maxRetries e)).
            \<exists>q \<in> set prs. labelableId m = pr_id q \<and> pr_mergeable q \<noteq> UNKNOWN)
       \<and> (distinct (map pr_id prs) \<longrightarrow>
            touching (inFlight (runWith maxRetries e)) p = [] \<and>
            upstreamAfter edges (succeeded (mutationResult e) (inFlight (runWith maxRetries e))) p = p)"
proof -
  let ?c = "snd (resolveLabel (conflictLabelName e) (getLabels e))"
  have i: "inFlight (runWith maxRetries e) = requests (reconcile ?c prs)"
    using runWith_snapshot[OF assms(1)] by simp
  have 1: "p \<notin> set (pullrequestsWithConflicts prs)"
    using assms(3) by (simp add: pullrequestsWithConflicts_def)
  have 2: "p \<notin> set (pullrequestsWithConflictResolution prs)"
    using assms(3) by (simp add: pullrequestsWithConflictResolution_def)
  have 3: "\<forall>q \<in> set (pullrequestsWithConflicts prs) \<union> set (pullrequestsWithConflictResolution prs).
            (pr_mergeable q = CONFLICTING) \<noteq> (pr_mergeable q = MERGEABLE)"
    by (auto simp: pullrequestsWithConflicts_def pullrequestsWithConflictResolution_def)
  have 4: "\<forall>m \<in> set (inFlight (runWith maxRetries e)).
            \<exists>q \<in> set prs. labelableId m = pr_id q \<and> pr_mergeable q \<noteq> UNKNOWN"
  proof
    fix m assume "m \<in> set (inFlight (runWith maxRetries e))"
    then have "m \<in> set (requests (reconcile ?c prs))" by (simp add: i)
    from requests_target[OF this] show "\<exists>q \<in> set prs. labelableId m = pr_id q \<and> pr_mergeable q \<noteq> UNKNOWN"
      by (cases m) auto
  qed
  have 5: "touching (inFlight (runWith maxRetries e)) p = [] \<and>
      upstreamAfter edges (succeeded (mutationResult e) (inFlight (runWith maxRetries e))) p = p"
    if d: "distinct (map pr_id prs)"
  proof -
    have t: "touching (inFlight (runWith maxRetries e)) p = []"
      unfolding i by (rule touching_unknown[OF d assms(2,3)])
    with upstreamAfter_untouched[OF t] show ?thesis by simp
  qed
  from 1 2 3 4 5 show ?thesis by blast
qed

theorem unknown_left_out_of_both_passes_witness:
  "snapshot (run exEnvMixed) = Some [exPR1, exPR2, exPR3, exPR4, exPR5]
   \<and> fetches (run exEnvMixed) = 60
   \<and> pr_mergeable exPR4 = UNKNOWN
   \<and> distinct (map pr_id [exPR1, exPR2, exPR3, exPR4, exPR5])
   \<and> exPR4 \<notin> set (pullrequestsWithConflicts [exPR1, exPR2, exPR3, exPR4, exPR5])
   \<and> exPR4 \<notin> set (pullrequestsWithConflictResolution [exPR1, exPR2, exPR3, exPR4, exPR5])
   \<and> touching (inFlight (run exEnvMixed)) exPR4 = []
   \<and> upstreamAfter [exConflictLabel, exOldLabel]
        (succeeded (mutationResult exEnvMixed) (inFlight (run exEnvMixed))) exPR4 = exPR4"
proof -
  have s: "snapshot (runWith 60 exEnvMixed) = Some [exPR1, exPR2, exPR3, exPR4, exPR5]"
    using run_exEnvMixed by (simp add: run_def)
  have f: "fetches (runWith 60 exEnvMixed) = 60"
    using run_exEnvMixed by (simp add: run_def)
  have p: "exPR4 \<in> set [exPR1, exPR2, exPR3, exPR4, exPR5]" by simp
  have u: "pr_mergeable exPR4 = UNKNOWN" by (simp add: exPR4_def)
  have d: "distinct (map pr_id [exPR1, exPR2, exPR3, exPR4, exPR5])" by code_simp
  from unknown_left_out_of_both_passes[OF s p u, of "[exConflictLabel, exOldLabel]"] s f u d
  show ?thesis by (simp add: run_def)
qed

subsection \<open>Claim C10\<close>

text \<open>
  Claim C10. When the label fetch succeeds without an exact name match and the final
  snapshot has a pull request with fact \<open>CONFLICTING\<close> or \<open>MERGEABLE\<close> that carries at
  least one label, the run first reports the label-not-found failure, goes on to the
  passes, and the already-labeled check of that pull request reads
  \<^verbatim>\<open>conflictLabel.node.id\<close> of the undefined \<^verbatim>\<open>conflictLabel\<close>: the callback's promise is
  rejected with a \<^verbatim>\<open>TypeError\<close>, while \<^verbatim>\<open>run\<close> itself returns normally.
\<close>

theorem undefined_label_dereferenced:
  assumes "getLabels e = Inr edges"
    and "\<forall>label \<in> set edges. label_name label \<noteq> conflictLabelName e"
    and "snapshot (runWith maxRetries e) = Some prs"
    and "p \<in> set prs"
    and "pr_mergeable p = CONFLICTING \<or> pr_mergeable p = MERGEABLE"
    and "pr_labels p \<noteq> []"
  shows "hd (failures (runWith maxRetries e)) = LabelNotFound (conflictLabelName e)
       \<and> TypeError \<in> set (unhandled (runWith maxRetries e))
       \<and> thrown (runWith maxRetries e) = None"
proof -
  from assms(1,2) have r: "resolveLabel (conflictLabelName e) (getLabels e) = ([LabelNotFound (conflictLabelName e)], None)"
    by (simp add: resolveLabel_def findConflictLabel_None[symmetric])
  obtain rest where f: "failures (runWith maxRetries e) = LabelNotFound (conflictLabelName e) # rest"
    using failures_runWith_prefix[of maxRetries e] r by auto
  from assms(5) have u: "pr_mergeable p \<noteq> UNKNOWN" by auto
  from runWith_snapshot[OF assms(3)] r reconcile_None_rejects[OF assms(4) u assms(6)] f
  show ?thesis by simp
qed

theorem undefined_label_dereferenced_witness:
  "getLabels exEnvNoLabelLabelled = Inr [exConflictLabel, exOldLabel]
   \<and> label_name exConflictLabel \<noteq> conflictLabelName exEnvNoLabelLabelled
   \<and> label_name exOldLabel \<noteq> conflictLabelName exEnvNoLabelLabelled
   \<and> snapshot (run exEnvNoLabelLabelled) = Some [exPR3]
   \<and> pr_mergeable exPR3 = CONFLICTING
   \<and> pr_labels exPR3 \<noteq> []
   \<and> hd (failures (run exEnvNoLabelLabelled)) = LabelNotFound ''conflict''
   \<and> TypeError \<in> set (unhandled (run exEnvNoLabelLabelled))
   \<and> thrown (run exEnvNoLabelLabelled) = None"
proof -
  have a: "getLabels exEnvNoLabelLabelled = Inr [exConflictLabel, exOldLabel]"
    by (simp add: exEnvNoLabelLabelled_def exEnvNoLabel_def exEnv_def)
  have c: "conflictLabelName exEnvNoLabelLabelled = ''conflict''"
    by (simp add: exEnvNoLabelLabelled_def exEnvNoLabel_def exEnv_def)
  have b: "\<forall>label \<in> set [exConflictLabel, exOldLabel]. label_name label \<noteq> conflictLabelName exEnvNoLabelLabelled"
    by (simp add: c exConflictLabel_def exOldLabel_def)
  have s: "snapshot (runWith 60 exEnvNoLabelLabelled) = Some [exPR3]"
    using run_exEnvNoLabelLabelled by (simp add: run_def)
  have p: "exPR3 \<in> set [exPR3]" by simp
  have m: "pr_mergeable exPR3 = CONFLICTING \<or> pr_mergeable exPR3 = MERGEABLE"
    by (simp add: exPR3_def)
  have l: "pr_labels exPR3 \<noteq> []" by (simp add: exPR3_def)
  from undefined_label_dereferenced[OF a b s p m l] a b s l
  show ?thesis by (simp add: run_def c exPR3_def)
qed

end
